theory Spec2Isabelle
  imports Complex_Main
begin

section \<open>Vectors and vertices\<close>

text \<open>
  A \<open>float\<close> coordinate is modelled by the real number it denotes, and the arithmetic on
  coordinates is exact: the rounding error of the geometric computations is outside the
  model.  (The two floats that steer a loop are modelled with their rounding, in the
  section on binary32 arithmetic below.)  \<open>glm::vec3\<close> is a triple of coordinates,
  \<open>Vertex\<close> is the interleaved structure of eight floats of the source.
\<close>

datatype vec3 = Vec3 (vec_x: real) (vec_y: real) (vec_z: real)

datatype Vertex = Vertex (vtx_x: real) (vtx_y: real) (vtx_z: real)
                         (vtx_s: real) (vtx_t: real)
                         (vtx_nx: real) (vtx_ny: real) (vtx_nz: real)

definition vadd :: "vec3 \<Rightarrow> vec3 \<Rightarrow> vec3" where
  "vadd a b = Vec3 (vec_x a + vec_x b) (vec_y a + vec_y b) (vec_z a + vec_z b)"

definition vsub :: "vec3 \<Rightarrow> vec3 \<Rightarrow> vec3" where
  "vsub a b = Vec3 (vec_x a - vec_x b) (vec_y a - vec_y b) (vec_z a - vec_z b)"

definition vscale :: "vec3 \<Rightarrow> real \<Rightarrow> vec3" where
  "vscale a k = Vec3 (vec_x a * k) (vec_y a * k) (vec_z a * k)"

text \<open>\<open>atan2\<close> of the C library and \<open>glm::radians\<close>, on reals.\<close>

definition atan2 :: "real \<Rightarrow> real \<Rightarrow> real" where
  "atan2 dy dx =
     (if 0 < dx then arctan (dy / dx)
      else if dx < 0 then (if 0 \<le> dy then arctan (dy / dx) + pi else arctan (dy / dx) - pi)
      else if 0 < dy then pi / 2
      else if dy < 0 then - (pi / 2)
      else 0)"

definition glm_radians :: "real \<Rightarrow> real" where
  "glm_radians deg = deg * (pi / 180)"

section \<open>generateTrackMesh\<close>

text \<open>
  The first loop of \<open>generateTrackMesh\<close>: iteration \<open>i\<close> stores the two offset points of
  \<open>centerPoints[i]\<close> in \<open>innerPoints[i]\<close> and \<open>outerPoints[i]\<close>.
\<close>

definition trackOffset :: "vec3 list \<Rightarrow> real \<Rightarrow> nat \<Rightarrow> vec3" where
  "trackOffset centerPoints halfWidth i =
     (let n = length centerPoints;
          A = centerPoints ! i;
          B = centerPoints ! ((i + 1) mod n);
          dx = vec_x B - vec_x A;
          dy = vec_y B - vec_y A;
          theta = atan2 dy dx;
          alpha = (if dx < 0 then theta - glm_radians 90 else theta + glm_radians 90);
          cosA = cos alpha;
          sinA = sin alpha
      in Vec3 (cosA * halfWidth) (sinA * halfWidth) 0)"

definition offsetStep ::
  "vec3 list \<Rightarrow> real \<Rightarrow> nat \<Rightarrow> vec3 list \<times> vec3 list \<Rightarrow> vec3 list \<times> vec3 list" where
  "offsetStep centerPoints halfWidth i io =
     (let A = centerPoints ! i;
          offset = trackOffset centerPoints halfWidth i
      in ((fst io)[i := vadd A offset], (snd io)[i := vsub A offset]))"

text \<open>
  The second loop: iteration \<open>i\<close> appends the four vertices of one quad and the six
  indices of its two triangles.  The indices are \<open>unsigned int\<close>: \<open>base\<close> is the vertex
  count converted to 32 bits, and the additions wrap.
\<close>

definition u32 :: "nat \<Rightarrow> nat" where
  "u32 k = k mod 2 ^ 32"

definition quadStep ::
  "vec3 list \<Rightarrow> vec3 list \<Rightarrow> nat \<Rightarrow> nat \<Rightarrow> Vertex list \<times> nat list \<Rightarrow> Vertex list \<times> nat list" where
  "quadStep innerPoints outerPoints n i vi =
     (let next = (i + 1) mod n;
          A = outerPoints ! i;
          B = outerPoints ! next;
          C = innerPoints ! i;
          D = innerPoints ! next;
          upNormal = Vec3 0 0 1;
          v0 = Vertex (vec_x C) (vec_y C) (vec_z C) 0 0 (vec_x upNormal) (vec_y upNormal) (vec_z upNormal);
          v1 = Vertex (vec_x A) (vec_y A) (vec_z A) 1 0 (vec_x upNormal) (vec_y upNormal) (vec_z upNormal);
          v2 = Vertex (vec_x B) (vec_y B) (vec_z B) 1 1 (vec_x upNormal) (vec_y upNormal) (vec_z upNormal);
          v3 = Vertex (vec_x D) (vec_y D) (vec_z D) 0 1 (vec_x upNormal) (vec_y upNormal) (vec_z upNormal);
          base = u32 (length (fst vi))
      in (fst vi @ [v0, v1, v2, v3],
          snd vi @ [u32 (base + 0), u32 (base + 3), u32 (base + 1),
                    u32 (base + 1), u32 (base + 3), u32 (base + 2)]))"

definition generateTrackMesh :: "vec3 list \<Rightarrow> real \<Rightarrow> Vertex list \<times> nat list" where
  "generateTrackMesh centerPoints trackWidth =
     (let halfWidth = trackWidth * 0.5;
          n = length centerPoints
      in if n < 2 then ([], [])
         else
           let io = fold (offsetStep centerPoints halfWidth) [0..<n]
                      (replicate n (Vec3 0 0 0), replicate n (Vec3 0 0 0))
           in fold (quadStep (fst io) (snd io) n) [0..<n] ([], []))"

text \<open>
  The extrusion as the specification words it: the inner and outer point of the centerline
  point \<open>i\<close>, the quad of the edge from \<open>i\<close> to its cyclic successor, and the two
  triangles of a quad whose first vertex has index \<open>base\<close>.
\<close>

definition spec_offset :: "vec3 list \<Rightarrow> real \<Rightarrow> nat \<Rightarrow> vec3" where
  "spec_offset loop w i =
     (let A = loop ! i;
          B = loop ! ((i + 1) mod length loop);
          a = (if vec_x B - vec_x A < 0
               then atan2 (vec_y B - vec_y A) (vec_x B - vec_x A) - pi / 2
               else atan2 (vec_y B - vec_y A) (vec_x B - vec_x A) + pi / 2)
      in Vec3 (w / 2 * cos a) (w / 2 * sin a) 0)"

definition spec_inner :: "vec3 list \<Rightarrow> real \<Rightarrow> nat \<Rightarrow> vec3" where
  "spec_inner loop w i = vadd (loop ! i) (spec_offset loop w i)"

definition spec_outer :: "vec3 list \<Rightarrow> real \<Rightarrow> nat \<Rightarrow> vec3" where
  "spec_outer loop w i = vsub (loop ! i) (spec_offset loop w i)"

definition spec_vertex :: "vec3 \<Rightarrow> real \<Rightarrow> real \<Rightarrow> Vertex" where
  "spec_vertex p u v = Vertex (vec_x p) (vec_y p) (vec_z p) u v 0 0 1"

definition spec_quad :: "vec3 list \<Rightarrow> real \<Rightarrow> nat \<Rightarrow> Vertex list" where
  "spec_quad loop w i =
     (let j = (i + 1) mod length loop
      in [spec_vertex (spec_inner loop w i) 0 0,
          spec_vertex (spec_outer loop w i) 1 0,
          spec_vertex (spec_outer loop w j) 1 1,
          spec_vertex (spec_inner loop w j) 0 1])"

definition spec_triangles :: "nat \<Rightarrow> nat list" where
  "spec_triangles base =
     [u32 (base + 0), u32 (base + 3), u32 (base + 1),
      u32 (base + 1), u32 (base + 3), u32 (base + 2)]"

text \<open>The quad that the second loop appends for edge \<open>i\<close>, from the two offset arrays.\<close>

definition quadOf :: "vec3 list \<Rightarrow> vec3 list \<Rightarrow> nat \<Rightarrow> nat \<Rightarrow> Vertex list" where
  "quadOf inner outer n i =
     [spec_vertex (inner ! i) 0 0, spec_vertex (outer ! i) 1 0,
      spec_vertex (outer ! ((i + 1) mod n)) 1 1, spec_vertex (inner ! ((i + 1) mod n)) 0 1]"

section \<open>exportAnimationPoints\<close>

text \<open>
  The file system and the formatting of a float by \<open>operator<<\<close> are outside the source:
  \<open>is_open\<close> says whether the output stream could be opened, \<open>fmt\<close> is the text that
  \<open>operator<<\<close> writes for a float.  The result is what the call leaves behind: the
  content of the file, or the message on the error stream when the file could not be
  created.
\<close>

datatype export_result = Written string | OpenFailed string

definition newline :: char where
  "newline = CHR 0x0A"

definition exportPoint :: "(real \<Rightarrow> string) \<Rightarrow> vec3 \<Rightarrow> string \<Rightarrow> string" where
  "exportPoint fmt p out =
     out @ fmt (vec_x p) @ '' '' @ fmt (vec_z p) @ '' '' @ fmt (vec_y p) @ [newline]"

definition exportAnimationPoints ::
  "(real \<Rightarrow> string) \<Rightarrow> bool \<Rightarrow> vec3 list \<Rightarrow> string \<Rightarrow> export_result" where
  "exportAnimationPoints fmt is_open points filename =
     (if \<not> is_open then OpenFailed (''Falha ao criar '' @ filename @ [newline])
      else Written (fold (exportPoint fmt) points []))"

section \<open>GLM vectors and matrices\<close>

text \<open>
  The functions of the GLM library that the render loop calls, on reals.  A matrix is its
  four columns, as in GLM.  \<open>glm::normalize\<close> multiplies by the inverse square root of
  the squared length; on the zero vector the floats give NaN components, which is the
  fault \<open>NotANumber\<close> here.  \<open>OutOfBounds\<close> is an access outside a \<open>std::vector\<close>.
\<close>

datatype fault = OutOfBounds | NotANumber

definition glm_dot :: "vec3 \<Rightarrow> vec3 \<Rightarrow> real" where
  "glm_dot a b = vec_x a * vec_x b + vec_y a * vec_y b + vec_z a * vec_z b"

definition glm_cross :: "vec3 \<Rightarrow> vec3 \<Rightarrow> vec3" where
  "glm_cross a b = Vec3 (vec_y a * vec_z b - vec_y b * vec_z a)
                    (vec_z a * vec_x b - vec_z b * vec_x a)
                    (vec_x a * vec_y b - vec_x b * vec_y a)"

definition glm_normalize :: "vec3 \<Rightarrow> fault + vec3" where
  "glm_normalize v = (if glm_dot v v = 0 then Inl NotANumber else Inr (vscale v (1 / sqrt (glm_dot v v))))"

datatype vec4 = Vec4 (v4_x: real) (v4_y: real) (v4_z: real) (v4_w: real)

datatype mat4 = Mat4 (col0: vec4) (col1: vec4) (col2: vec4) (col3: vec4)

definition v4add :: "vec4 \<Rightarrow> vec4 \<Rightarrow> vec4" where
  "v4add a b = Vec4 (v4_x a + v4_x b) (v4_y a + v4_y b) (v4_z a + v4_z b) (v4_w a + v4_w b)"

definition v4scale :: "vec4 \<Rightarrow> real \<Rightarrow> vec4" where
  "v4scale a k = Vec4 (v4_x a * k) (v4_y a * k) (v4_z a * k) (v4_w a * k)"

definition vec4_of :: "vec3 \<Rightarrow> real \<Rightarrow> vec4" where
  "vec4_of v w = Vec4 (vec_x v) (vec_y v) (vec_z v) w"

definition mat4_identity :: mat4 where
  "mat4_identity = Mat4 (Vec4 1 0 0 0) (Vec4 0 1 0 0) (Vec4 0 0 1 0) (Vec4 0 0 0 1)"

definition mat4_mul_vec4 :: "mat4 \<Rightarrow> vec4 \<Rightarrow> vec4" where
  "mat4_mul_vec4 m v =
     v4add (v4add (v4add (v4scale (col0 m) (v4_x v)) (v4scale (col1 m) (v4_y v)))
                  (v4scale (col2 m) (v4_z v)))
           (v4scale (col3 m) (v4_w v))"

definition mat4_mul :: "mat4 \<Rightarrow> mat4 \<Rightarrow> mat4" where
  "mat4_mul m1 m2 =
     Mat4 (mat4_mul_vec4 m1 (col0 m2)) (mat4_mul_vec4 m1 (col1 m2))
          (mat4_mul_vec4 m1 (col2 m2)) (mat4_mul_vec4 m1 (col3 m2))"

definition glm_translate :: "mat4 \<Rightarrow> vec3 \<Rightarrow> mat4" where
  "glm_translate m v =
     Mat4 (col0 m) (col1 m) (col2 m)
          (v4add (v4add (v4add (v4scale (col0 m) (vec_x v)) (v4scale (col1 m) (vec_y v)))
                        (v4scale (col2 m) (vec_z v)))
                 (col3 m))"

definition glm_scale :: "mat4 \<Rightarrow> vec3 \<Rightarrow> mat4" where
  "glm_scale m v =
     Mat4 (v4scale (col0 m) (vec_x v)) (v4scale (col1 m) (vec_y v))
          (v4scale (col2 m) (vec_z v)) (col3 m)"

definition glm_rotate :: "mat4 \<Rightarrow> real \<Rightarrow> vec3 \<Rightarrow> fault + mat4" where
  "glm_rotate m angle v =
     (case glm_normalize v of
        Inl e \<Rightarrow> Inl e
      | Inr axis \<Rightarrow>
          let c = cos angle;
              s = sin angle;
              temp = vscale axis (1 - c);
              r00 = c + vec_x temp * vec_x axis;
              r01 = vec_x temp * vec_y axis + s * vec_z axis;
              r02 = vec_x temp * vec_z axis - s * vec_y axis;
              r10 = vec_y temp * vec_x axis - s * vec_z axis;
              r11 = c + vec_y temp * vec_y axis;
              r12 = vec_y temp * vec_z axis + s * vec_x axis;
              r20 = vec_z temp * vec_x axis + s * vec_y axis;
              r21 = vec_z temp * vec_y axis - s * vec_x axis;
              r22 = c + vec_z temp * vec_z axis
          in Inr (Mat4
               (v4add (v4add (v4scale (col0 m) r00) (v4scale (col1 m) r01)) (v4scale (col2 m) r02))
               (v4add (v4add (v4scale (col0 m) r10) (v4scale (col1 m) r11)) (v4scale (col2 m) r12))
               (v4add (v4add (v4scale (col0 m) r20) (v4scale (col1 m) r21)) (v4scale (col2 m) r22))
               (col3 m)))"

section \<open>The model matrix of the render loop\<close>

text \<open>
  The fields of \<open>Object3D\<close> that the render loop reads.  \<open>cpp_rem\<close> is the operator
  \<open>%\<close> of C++ on \<open>int\<close>, which truncates towards zero; \<open>vector_at\<close> is \<open>operator[]\<close> of
  \<open>std::vector\<close>.  The number of animation positions is taken to fit an \<open>int\<close>.
\<close>

record Object3D =
  name :: string
  scale :: vec3
  position :: vec3
  angle :: vec3
  animationPositions :: "vec3 list"

definition cpp_rem :: "int \<Rightarrow> int \<Rightarrow> int" where
  "cpp_rem a b = sgn a * (\<bar>a\<bar> mod \<bar>b\<bar>)"

definition vector_at :: "'a list \<Rightarrow> int \<Rightarrow> fault + 'a" where
  "vector_at xs i = (if 0 \<le> i \<and> i < int (length xs) then Inr (xs ! nat i) else Inl OutOfBounds)"

text \<open>
  The placement of the object named \<open>Carro\<close>: the position \<open>C\<close> and the three axes
  \<open>forward\<close>, \<open>right\<close>, \<open>upAxis\<close>.
\<close>

definition carFrame :: "vec3 list \<Rightarrow> int \<Rightarrow> fault + (vec3 \<times> vec3 \<times> vec3 \<times> vec3)" where
  "carFrame positions animationIndex =
     (let N = int (length positions);
          idx = cpp_rem animationIndex N;
          prevIdx = cpp_rem (idx - 1 + N) N;
          nextIdx = cpp_rem (idx + 1) N
      in case vector_at positions prevIdx of Inl e \<Rightarrow> Inl e | Inr P \<Rightarrow>
         (case vector_at positions idx of Inl e \<Rightarrow> Inl e | Inr C \<Rightarrow>
         (case vector_at positions nextIdx of Inl e \<Rightarrow> Inl e | Inr Np \<Rightarrow>
         (case glm_normalize (vsub Np P) of Inl e \<Rightarrow> Inl e | Inr dir \<Rightarrow>
            let forward = dir
            in case glm_normalize (glm_cross forward (Vec3 0 1 0)) of Inl e \<Rightarrow> Inl e | Inr right \<Rightarrow>
               let upAxis = glm_cross right forward
               in Inr (C, forward, right, upAxis)))))"

definition rotationOf :: "vec3 \<Rightarrow> vec3 \<Rightarrow> vec3 \<Rightarrow> mat4" where
  "rotationOf right upAxis forward =
     Mat4 (vec4_of right 0) (vec4_of upAxis 0) (vec4_of forward 0) (col3 mat4_identity)"

definition baseModel :: "Object3D \<Rightarrow> int \<Rightarrow> fault + mat4" where
  "baseModel obj animationIndex =
     (if name obj = ''Carro'' \<and> 3 \<le> length (animationPositions obj) then
        (case carFrame (animationPositions obj) animationIndex of
           Inl e \<Rightarrow> Inl e
         | Inr (C, forward, right, upAxis) \<Rightarrow>
             Inr (mat4_mul (mat4_mul (glm_translate mat4_identity C) (rotationOf right upAxis forward))
                           (glm_scale mat4_identity (scale obj))))
      else Inr (glm_translate mat4_identity (position obj)))"

definition modelMatrix :: "Object3D \<Rightarrow> int \<Rightarrow> fault + mat4" where
  "modelMatrix obj animationIndex =
     (case baseModel obj animationIndex of Inl e \<Rightarrow> Inl e | Inr m0 \<Rightarrow>
      (case glm_rotate m0 (glm_radians (vec_x (angle obj))) (Vec3 1 0 0) of Inl e \<Rightarrow> Inl e | Inr m1 \<Rightarrow>
      (case glm_rotate m1 (glm_radians (vec_y (angle obj))) (Vec3 0 1 0) of Inl e \<Rightarrow> Inl e | Inr m2 \<Rightarrow>
      (case glm_rotate m2 (glm_radians (vec_z (angle obj))) (Vec3 0 0 1) of Inl e \<Rightarrow> Inl e | Inr m3 \<Rightarrow>
         Inr (glm_scale m3 (scale obj))))))"

text \<open>
  The placement as the specification words it: the index taken modulo the loop length, its
  cyclic predecessor and successor, and the world up vector.
\<close>

definition spec_idx :: "vec3 list \<Rightarrow> int \<Rightarrow> nat" where
  "spec_idx loop index = nat (index mod int (length loop))"

definition spec_prev :: "vec3 list \<Rightarrow> int \<Rightarrow> nat" where
  "spec_prev loop index = nat ((int (spec_idx loop index) - 1 + int (length loop)) mod int (length loop))"

definition spec_next :: "vec3 list \<Rightarrow> int \<Rightarrow> nat" where
  "spec_next loop index = nat ((int (spec_idx loop index) + 1) mod int (length loop))"

definition worldUp :: vec3 where
  "worldUp = Vec3 0 1 0"

section \<open>Binary32 arithmetic of the loop counters\<close>

text \<open>
  Two loops of the source are steered by a \<open>float\<close> that accumulates rounded values: the
  parameter \<open>t\<close> of \<open>generateBSplinePoints\<close> and the accumulator of the animation clock.
  How often they run depends on the rounding, so their arithmetic is modelled as IEEE 754
  binary32 with round to nearest, ties to even: a value is a real number, an infinity or
  NaN, and every operation rounds its exact result with \<open>fround\<close>.  The sign of a zero is
  not represented: a zero stands for \<open>+0\<close>, which is what the source divides by when
  \<open>pointsPerSegment\<close> is 0.

  \<open>binade a\<close> is the exponent \<open>e\<close> with \<open>2^e \<le> a < 2^(e+1)\<close>, kept between \<open>-126\<close> (the
  subnormal range) and \<open>128\<close>; one unit in the last place is \<open>2^(e-23)\<close>.
\<close>

datatype float = Finite real | PlusInf | MinusInf | NaN

fun binade_from :: "nat \<Rightarrow> int \<Rightarrow> real \<Rightarrow> int" where
  "binade_from 0 e a = e"
| "binade_from (Suc k) e a = (if a < 2 powi (e + 1) then e else binade_from k (e + 1) a)"

definition binade :: "real \<Rightarrow> int" where
  "binade a = binade_from 254 (- 126) a"

definition round_half_even :: "real \<Rightarrow> int" where
  "round_half_even y =
     (let f = \<lfloor>y\<rfloor>; r = y - of_int f
      in if r < 1 / 2 then f else if 1 / 2 < r then f + 1 else if even f then f else f + 1)"

definition fround :: "real \<Rightarrow> float" where
  "fround x =
     (let a = \<bar>x\<bar>;
          ulp = 2 powi (binade a - 23);
          r = of_int (round_half_even (a / ulp)) * ulp
      in if 2 powi 128 \<le> r then (if 0 < x then PlusInf else MinusInf)
         else Finite (sgn x * r))"

fun fadd :: "float \<Rightarrow> float \<Rightarrow> float" where
  "fadd (Finite a) (Finite b) = fround (a + b)"
| "fadd NaN y = NaN"
| "fadd x NaN = NaN"
| "fadd PlusInf MinusInf = NaN"
| "fadd MinusInf PlusInf = NaN"
| "fadd PlusInf y = PlusInf"
| "fadd x PlusInf = PlusInf"
| "fadd MinusInf y = MinusInf"
| "fadd x MinusInf = MinusInf"

fun fneg :: "float \<Rightarrow> float" where
  "fneg (Finite a) = Finite (- a)"
| "fneg PlusInf = MinusInf"
| "fneg MinusInf = PlusInf"
| "fneg NaN = NaN"

definition fsub :: "float \<Rightarrow> float \<Rightarrow> float" where
  "fsub x y = fadd x (fneg y)"

fun fdiv :: "float \<Rightarrow> float \<Rightarrow> float" where
  "fdiv (Finite a) (Finite b) =
     (if b = 0 then (if a = 0 then NaN else if 0 < a then PlusInf else MinusInf)
      else fround (a / b))"
| "fdiv NaN y = NaN"
| "fdiv x NaN = NaN"
| "fdiv (Finite a) y = Finite 0"
| "fdiv PlusInf (Finite b) = (if 0 \<le> b then PlusInf else MinusInf)"
| "fdiv MinusInf (Finite b) = (if 0 \<le> b then MinusInf else PlusInf)"
| "fdiv x y = NaN"

fun fle :: "float \<Rightarrow> float \<Rightarrow> bool" where
  "fle (Finite a) (Finite b) = (a \<le> b)"
| "fle NaN y = False"
| "fle x NaN = False"
| "fle MinusInf y = True"
| "fle x PlusInf = True"
| "fle x y = False"

definition float_of_int :: "int \<Rightarrow> float" where
  "float_of_int i = fround (of_int i)"

section \<open>generateBSplinePoints\<close>

text \<open>
  \<open>glm::mat4x3\<close> is its four columns; \<open>BSplineMatrix\<close> lists its columns as the
  constructor of \<open>glm::mat4\<close> receives them.  \<open>sampleLoop\<close> is the inner loop over \<open>t\<close>,
  \<open>windowLoop\<close> the outer loop over the windows of four control points.  A call that does
  not return is \<open>None\<close>; a sample at a value of \<open>t\<close> that is not finite is the fault
  \<open>NotANumber\<close>.
\<close>

datatype mat4x3 = Mat4x3 (g0: vec3) (g1: vec3) (g2: vec3) (g3: vec3)

definition mat4x3_mul_vec4 :: "mat4x3 \<Rightarrow> vec4 \<Rightarrow> vec3" where
  "mat4x3_mul_vec4 m v =
     vadd (vadd (vadd (vscale (g0 m) (v4_x v)) (vscale (g1 m) (v4_y v)))
                (vscale (g2 m) (v4_z v)))
          (vscale (g3 m) (v4_w v))"

definition mat4x3_mul_mat4 :: "mat4x3 \<Rightarrow> mat4 \<Rightarrow> mat4x3" where
  "mat4x3_mul_mat4 m1 m2 =
     Mat4x3 (mat4x3_mul_vec4 m1 (col0 m2)) (mat4x3_mul_vec4 m1 (col1 m2))
            (mat4x3_mul_vec4 m1 (col2 m2)) (mat4x3_mul_vec4 m1 (col3 m2))"

definition BSplineMatrix :: mat4 where
  "BSplineMatrix =
     Mat4 (Vec4 (- 1 / 6) (3 / 6) (- 3 / 6) (1 / 6))
          (Vec4 (3 / 6) (- 6 / 6) (3 / 6) 0)
          (Vec4 (- 3 / 6) 0 (3 / 6) 0)
          (Vec4 (1 / 6) (4 / 6) (1 / 6) 0)"

definition bsplineSample :: "vec3 list \<Rightarrow> nat \<Rightarrow> real \<Rightarrow> vec3" where
  "bsplineSample controlPoints i t =
     (let T = Vec4 (t * t * t) (t * t) t 1;
          G = Mat4x3 (controlPoints ! i) (controlPoints ! (i + 1))
                     (controlPoints ! (i + 2)) (controlPoints ! (i + 3))
      in mat4x3_mul_vec4 (mat4x3_mul_mat4 G BSplineMatrix) T)"

partial_function (option) sampleLoop ::
  "vec3 list \<Rightarrow> nat \<Rightarrow> float \<Rightarrow> float \<Rightarrow> vec3 list \<Rightarrow> (fault + vec3 list) option" where
  "sampleLoop controlPoints i step t curvePoints =
     (if fle t (Finite 1) then
        (case t of
           Finite r \<Rightarrow> sampleLoop controlPoints i step (fadd t step)
                         (curvePoints @ [bsplineSample controlPoints i r])
         | _ \<Rightarrow> Some (Inl NotANumber))
      else Some (Inr curvePoints))"

function windowLoop ::
  "vec3 list \<Rightarrow> float \<Rightarrow> nat \<Rightarrow> vec3 list \<Rightarrow> (fault + vec3 list) option" where
  "windowLoop controlPoints step i curvePoints =
     (if i + 3 < length controlPoints then
        (case sampleLoop controlPoints i step (Finite 0) curvePoints of
           None \<Rightarrow> None
         | Some (Inl e) \<Rightarrow> Some (Inl e)
         | Some (Inr curve) \<Rightarrow> windowLoop controlPoints step (i + 1) curve)
      else Some (Inr curvePoints))"
  by pat_completeness auto
termination
  by (relation "measure (\<lambda>(controlPoints, step, i, curvePoints). length controlPoints - i)") auto

declare windowLoop.simps [simp del]

definition generateBSplinePoints :: "vec3 list \<Rightarrow> int \<Rightarrow> (fault + vec3 list) option" where
  "generateBSplinePoints controlPoints pointsPerSegment =
     (if length controlPoints < 4 then Some (Inr [])
      else
        let step = fdiv (Finite 1) (float_of_int pointsPerSegment)
        in windowLoop controlPoints step 0 [])"

text \<open>
  For the properties: \<open>counter step k\<close> is the value of \<open>t\<close> after \<open>k\<close> additions of the
  step, \<open>stops_after step n\<close> says that \<open>t\<close> runs through \<open>n\<close> finite values not above 1 and
  then fails the test, and \<open>curveOf\<close> is the curve that is returned then (\<open>fval\<close> reads
  the finite values of the counter).
\<close>

definition counter :: "float \<Rightarrow> nat \<Rightarrow> float" where
  "counter step k = ((\<lambda>t. fadd t step) ^^ k) (Finite 0)"

definition fval :: "float \<Rightarrow> real" where
  "fval t = (case t of Finite r \<Rightarrow> r | _ \<Rightarrow> 0)"

definition stops_after :: "float \<Rightarrow> nat \<Rightarrow> bool" where
  "stops_after step n \<longleftrightarrow>
     (\<forall>k<n. \<exists>r. counter step k = Finite r \<and> r \<le> 1) \<and> \<not> fle (counter step n) (Finite 1)"

definition curveOf :: "vec3 list \<Rightarrow> float \<Rightarrow> nat \<Rightarrow> vec3 list" where
  "curveOf cps step n =
     concat (map (\<lambda>j. map (\<lambda>k. bsplineSample cps j (fval (counter step k))) [0..<n])
                 [0..<length cps - 3])"

section \<open>The animation clock of the render loop\<close>

text \<open>
  One frame of the viewer: the render loop adds the frame time to \<open>animAccumulator\<close> and,
  when the car has animation positions, advances \<open>animationIndex\<close> once for every
  \<open>STEP_TIME\<close> in the accumulator.  \<open>loopLength\<close> is the number of animation positions,
  taken to fit an \<open>int\<close>; \<open>size_t_of_int\<close> is the conversion of the \<open>int\<close> sum to
  \<open>size_t\<close>.  \<open>accAfter a k\<close> is the accumulator after \<open>k\<close> subtractions and
  \<open>drains a k\<close> says that the loop runs exactly \<open>k\<close> times from the accumulator \<open>a\<close>.
\<close>

record AnimationState =
  animationIndex :: int
  animAccumulator :: float

definition STEP_TIME :: float where
  "STEP_TIME = fdiv (Finite 1) (Finite 30)"

definition fge :: "float \<Rightarrow> float \<Rightarrow> bool" where
  "fge x y = fle y x"

definition size_t_of_int :: "int \<Rightarrow> nat" where
  "size_t_of_int i = (if 0 \<le> i then nat i else nat (i + 2 ^ 64))"

partial_function (option) animationLoop :: "nat \<Rightarrow> AnimationState \<Rightarrow> AnimationState option" where
  "animationLoop loopLength st =
     (if fge (animAccumulator st) STEP_TIME then
        animationLoop loopLength
          (st\<lparr>animationIndex := int (size_t_of_int (animationIndex st + 1) mod loopLength),
              animAccumulator := fsub (animAccumulator st) STEP_TIME\<rparr>)
      else Some st)"

definition advance :: "AnimationState \<Rightarrow> float \<Rightarrow> nat \<Rightarrow> AnimationState option" where
  "advance st deltaTime loopLength =
     (let st' = st\<lparr>animAccumulator := fadd (animAccumulator st) deltaTime\<rparr>
      in if loopLength \<noteq> 0 then animationLoop loopLength st' else Some st')"

definition accAfter :: "float \<Rightarrow> nat \<Rightarrow> float" where
  "accAfter a k = ((\<lambda>a. fsub a STEP_TIME) ^^ k) a"

definition drains :: "float \<Rightarrow> nat \<Rightarrow> bool" where
  "drains a k \<longleftrightarrow> (\<forall>j<k. fge (accAfter a j) STEP_TIME) \<and> \<not> fge (accAfter a k) STEP_TIME"

section \<open>Properties of generateTrackMesh\<close>

lemma offsetStep_length:
  "length (fst (offsetStep cps h i io)) = length (fst io) \<and>
   length (snd (offsetStep cps h i io)) = length (snd io)"
  by (simp add: offsetStep_def Let_def)

lemma offset_loop_inv:
  "k \<le> length (fst io) \<Longrightarrow> length (snd io) = length (fst io) \<Longrightarrow>
   (let r = fold (offsetStep cps h) [0..<k] io
    in length (fst r) = length (fst io) \<and> length (snd r) = length (fst io) \<and>
       (\<forall>j<k. fst r ! j = vadd (cps ! j) (trackOffset cps h j) \<and>
              snd r ! j = vsub (cps ! j) (trackOffset cps h j)))"
proof (induction k)
  case 0
  then show ?case by simp
next
  case (Suc k)
  define r where "r = fold (offsetStep cps h) [0..<k] io"
  from Suc have len: "length (fst r) = length (fst io)" "length (snd r) = length (fst io)"
    and old: "\<forall>j<k. fst r ! j = vadd (cps ! j) (trackOffset cps h j) \<and>
                    snd r ! j = vsub (cps ! j) (trackOffset cps h j)"
    by (simp_all add: r_def Let_def)
  have step: "fold (offsetStep cps h) [0..<Suc k] io = offsetStep cps h k r"
    by (simp add: r_def)
  have klt: "k < length (fst r)" "k < length (snd r)"
    using Suc.prems len by simp_all
  have new: "\<forall>j<Suc k. fst (offsetStep cps h k r) ! j = vadd (cps ! j) (trackOffset cps h j) \<and>
                        snd (offsetStep cps h k r) ! j = vsub (cps ! j) (trackOffset cps h j)"
  proof (intro allI impI)
    fix j assume "j < Suc k"
    then consider "j < k" | "j = k" by linarith
    then show "fst (offsetStep cps h k r) ! j = vadd (cps ! j) (trackOffset cps h j) \<and>
               snd (offsetStep cps h k r) ! j = vsub (cps ! j) (trackOffset cps h j)"
    proof cases
      case 1
      then show ?thesis using old by (simp add: offsetStep_def Let_def)
    next
      case 2
      then show ?thesis using klt by (simp add: offsetStep_def Let_def)
    qed
  qed
  show ?case
    unfolding Let_def step using new len by (simp add: offsetStep_length)
qed

lemma spec_offset_eq: "trackOffset cps (w / 2) i = spec_offset cps w i"
  by (simp add: trackOffset_def spec_offset_def Let_def glm_radians_def mult.commute)

lemma u32_u32_add: "u32 (u32 a + m) = u32 (a + m)"
  by (simp add: u32_def mod_add_left_eq)

lemma quadStep_eq:
  "quadStep inner outer n i (vs, ixs) =
     (vs @ quadOf inner outer n i, ixs @ spec_triangles (length vs))"
  unfolding quadStep_def Let_def spec_triangles_def quadOf_def spec_vertex_def
    fst_conv snd_conv u32_u32_add vec3.sel
  by (rule refl)

lemma length_quads: "length (concat (map (quadOf inner outer n) [0..<k])) = 4 * k"
  by (induction k) (simp_all add: quadOf_def)

lemma quad_loop:
  "fold (quadStep inner outer n) [0..<k] ([], []) =
     (concat (map (quadOf inner outer n) [0..<k]),
      concat (map (\<lambda>i. spec_triangles (4 * i)) [0..<k]))"
proof (induction k)
  case 0
  then show ?case by simp
next
  case (Suc k)
  have "fold (quadStep inner outer n) [0..<Suc k] ([], []) =
        quadStep inner outer n k (fold (quadStep inner outer n) [0..<k] ([], []))"
    by simp
  also have "\<dots> = (concat (map (quadOf inner outer n) [0..<k]) @ quadOf inner outer n k,
                    concat (map (\<lambda>i. spec_triangles (4 * i)) [0..<k]) @ spec_triangles (4 * k))"
    unfolding Suc quadStep_eq length_quads by (rule refl)
  finally show ?case by simp
qed

lemma spec_quad_eq:
  assumes "i < length cps"
    and "\<forall>j<length cps. inner ! j = spec_inner cps w j \<and> outer ! j = spec_outer cps w j"
  shows "quadOf inner outer (length cps) i = spec_quad cps w i"
proof -
  have "0 < length cps"
    using assms(1) by (cases cps) simp_all
  then have "(i + 1) mod length cps < length cps"
    by (rule mod_less_divisor)
  then show ?thesis
    using assms by (simp add: quadOf_def spec_quad_def Let_def)
qed

lemma generateTrackMesh_closed:
  assumes "2 \<le> length cps"
  shows "generateTrackMesh cps w =
           (concat (map (spec_quad cps w) [0..<length cps]),
            concat (map (\<lambda>i. spec_triangles (4 * i)) [0..<length cps]))"
proof -
  define n where "n = length cps"
  define io where "io = fold (offsetStep cps (w * 0.5)) [0..<n]
                          (replicate n (Vec3 0 0 0), replicate n (Vec3 0 0 0))"
  have inv: "\<forall>j<n. fst io ! j = spec_inner cps w j \<and> snd io ! j = spec_outer cps w j"
    using offset_loop_inv [of n "(replicate n (Vec3 0 0 0), replicate n (Vec3 0 0 0))" cps "w * 0.5"]
    by (simp add: io_def Let_def spec_inner_def spec_outer_def spec_offset_eq)
  have quads: "map (quadOf (fst io) (snd io) n) [0..<n] = map (spec_quad cps w) [0..<n]"
    using inv spec_quad_eq [of _ cps "fst io" w "snd io"] by (simp add: n_def)
  have "generateTrackMesh cps w = fold (quadStep (fst io) (snd io) n) [0..<n] ([], [])"
    using assms by (simp add: generateTrackMesh_def Let_def io_def n_def)
  then have "generateTrackMesh cps w =
               (concat (map (spec_quad cps w) [0..<n]),
                concat (map (\<lambda>i. spec_triangles (4 * i)) [0..<n]))"
    unfolding quad_loop quads .
  then show ?thesis
    unfolding n_def .
qed

lemma generateTrackMesh_degenerate:
  "length cps < 2 \<Longrightarrow> generateTrackMesh cps w = ([], [])"
  by (simp add: generateTrackMesh_def Let_def)

lemma length_spec_quads: "length (concat (map (spec_quad cps w) [0..<k])) = 4 * k"
  by (induction k) (simp_all add: spec_quad_def Let_def)

lemma length_spec_triangles: "length (concat (map (\<lambda>i. spec_triangles (4 * i)) [0..<k])) = 6 * k"
  by (induction k) (simp_all add: spec_triangles_def)

lemma drop_concat_blocks:
  assumes "\<And>j. length (f j) = m" and "i < k"
  shows "take m (drop (m * i) (concat (map f [0..<k]))) = f i"
  using assms(2)
proof (induction k)
  case 0
  then show ?case by simp
next
  case (Suc k)
  have len: "length (concat (map f [0..<k])) = m * k"
    by (induction k) (simp_all add: assms(1))
  show ?case
  proof (cases "i < k")
    case True
    then have "Suc i \<le> k" by simp
    then have "m * Suc i \<le> m * k" by (rule mult_le_mono2)
    then have "m * i + m \<le> m * k" by simp
    with True Suc.IH len show ?thesis
      by (simp add: take_drop)
  next
    case False
    with Suc.prems have "i = k" by simp
    then show ?thesis
      by (simp add: len assms(1))
  qed
qed

lemma u32_less: "u32 k < 2 ^ 32"
  by (simp add: u32_def)

lemma u32_id: "k < 2 ^ 32 \<Longrightarrow> u32 k = k"
  by (simp add: u32_def)

lemma set_spec_triangles: "set (spec_triangles b) = (\<lambda>d. u32 (b + d)) ` {0, 1, 2, 3}"
  unfolding spec_triangles_def by (simp only: list.set image_insert image_empty) blast

lemma spec_triangles_bound:
  assumes "i < n" and "ix \<in> set (spec_triangles (4 * i))"
  shows "ix < 4 * n"
proof -
  from assms(2) obtain d where d0: "d \<in> {0, 1, 2, 3}" and d2: "ix = u32 (4 * i + d)"
    unfolding set_spec_triangles by blast
  from d0 have "d \<le> 3" by auto
  note d = this d2
  show ?thesis
  proof (cases "4 * n \<le> 2 ^ 32")
    case True
    have "4 * i + d < 4 * n"
      using assms(1) d(1) by simp
    moreover have "u32 (4 * i + d) \<le> 4 * i + d"
      by (simp add: u32_def)
    ultimately show ?thesis
      using d(2) by simp
  next
    case False
    have "ix < 2 ^ 32"
      unfolding d(2) by (rule u32_less)
    with False show ?thesis by simp
  qed
qed

lemma spec_triangles_exact:
  assumes "i < n" and "4 * n \<le> 2 ^ 32"
  shows "spec_triangles (4 * i) = [4 * i, 4 * i + 3, 4 * i + 1, 4 * i + 1, 4 * i + 3, 4 * i + 2]"
proof -
  have "4 * i + d < 2 ^ 32" if "d \<le> 3" for d
    using assms that by simp
  then have "u32 (4 * i + d) = 4 * i + d" if "d \<le> 3" for d
    using that by (simp add: u32_id)
  from this [of 0] this [of 1] this [of 2] this [of 3] show ?thesis
    unfolding spec_triangles_def by simp
qed

lemma spec_z:
  "vec_z (spec_inner loop w i) = vec_z (loop ! i) \<and> vec_z (spec_outer loop w i) = vec_z (loop ! i)"
  by (simp add: spec_inner_def spec_outer_def spec_offset_def vadd_def vsub_def Let_def)

text \<open>
  C1: for a closed loop of at least two points, the vertex buffer is the concatenation, in
  edge order, of the quads \<open>inner[i], outer[i], outer[i+1 mod n], inner[i+1 mod n]\<close> with
  UVs \<open>(0,0), (1,0), (1,1), (0,1)\<close> and normal \<open>(0,0,1)\<close>; the offset points are
  \<open>A \<plusminus> (w/2)(cos a, sin a, 0)\<close> with the perpendicular angle of the specification and keep
  the third coordinate of \<open>A\<close>; the index buffer is the concatenation of the triangles
  \<open>(v0,v3,v1), (v1,v3,v2)\<close> of each quad, counted from the first vertex of the quad.
\<close>

theorem generateTrackMesh_extrusion:
  assumes "2 \<le> length loop"
  shows "fst (generateTrackMesh loop w) = concat (map (spec_quad loop w) [0..<length loop]) \<and>
         snd (generateTrackMesh loop w) =
           concat (map (\<lambda>i. spec_triangles (length (concat (map (spec_quad loop w) [0..<i]))))
                       [0..<length loop]) \<and>
         (\<forall>i<length loop.
            take 4 (drop (4 * i) (fst (generateTrackMesh loop w))) = spec_quad loop w i \<and>
            take 6 (drop (6 * i) (snd (generateTrackMesh loop w))) = spec_triangles (4 * i) \<and>
            vec_z (spec_inner loop w i) = vec_z (loop ! i) \<and>
            vec_z (spec_outer loop w i) = vec_z (loop ! i))"
proof -
  have v: "fst (generateTrackMesh loop w) = concat (map (spec_quad loop w) [0..<length loop])"
    and t: "snd (generateTrackMesh loop w) =
            concat (map (\<lambda>i. spec_triangles (4 * i)) [0..<length loop])"
    using assms by (simp_all add: generateTrackMesh_closed)
  have q: "take 4 (drop (4 * i) (fst (generateTrackMesh loop w))) = spec_quad loop w i"
    if "i < length loop" for i
    unfolding v using that by (intro drop_concat_blocks) (simp_all add: spec_quad_def Let_def)
  have s: "take 6 (drop (6 * i) (snd (generateTrackMesh loop w))) = spec_triangles (4 * i)"
    if "i < length loop" for i
    unfolding t using that by (intro drop_concat_blocks) (simp_all add: spec_triangles_def)
  show ?thesis
    unfolding length_spec_quads using v t q s spec_z by blast
qed

theorem generateTrackMesh_extrusion_witness:
  "2 \<le> length [Vec3 0 0 0, Vec3 1 0 0] \<and>
   fst (generateTrackMesh [Vec3 0 0 0, Vec3 1 0 0] 2) =
     [Vertex 0 1 0 0 0 0 0 1, Vertex 0 (- 1) 0 1 0 0 0 1,
      Vertex 1 (- 1) 0 1 1 0 0 1, Vertex 1 1 0 0 1 0 0 1,
      Vertex 1 1 0 0 0 0 0 1, Vertex 1 (- 1) 0 1 0 0 0 1,
      Vertex 0 (- 1) 0 1 1 0 0 1, Vertex 0 1 0 0 1 0 0 1] \<and>
   snd (generateTrackMesh [Vec3 0 0 0, Vec3 1 0 0] 2) = [0, 3, 1, 1, 3, 2, 4, 7, 5, 5, 7, 6]"
proof -
  have two: "[0..<2] = [0, 1]"
    by (simp add: upt_rec)
  have "spec_quad [Vec3 0 0 0, Vec3 1 0 0] 2 0 =
          [Vertex 0 1 0 0 0 0 0 1, Vertex 0 (- 1) 0 1 0 0 0 1,
           Vertex 1 (- 1) 0 1 1 0 0 1, Vertex 1 1 0 0 1 0 0 1]"
    and "spec_quad [Vec3 0 0 0, Vec3 1 0 0] 2 1 =
          [Vertex 1 1 0 0 0 0 0 1, Vertex 1 (- 1) 0 1 0 0 0 1,
           Vertex 0 (- 1) 0 1 1 0 0 1, Vertex 0 1 0 0 1 0 0 1]"
    by (simp_all add: spec_quad_def spec_vertex_def spec_inner_def spec_outer_def
        spec_offset_def atan2_def vadd_def vsub_def Let_def)
  then show ?thesis
    using generateTrackMesh_extrusion [of "[Vec3 0 0 0, Vec3 1 0 0]" 2]
    by (simp add: two spec_quad_def Let_def spec_triangles_def u32_def)
qed

text \<open>
  C2: a loop of \<open>n \<ge> 2\<close> points gives exactly \<open>4n\<close> vertices and \<open>6n\<close> index entries; a
  loop of fewer than two points gives empty vertex and index sequences.
\<close>

theorem generateTrackMesh_counts:
  "(2 \<le> length loop \<longrightarrow>
      length (fst (generateTrackMesh loop w)) = 4 * length loop \<and>
      length (snd (generateTrackMesh loop w)) = 6 * length loop) \<and>
   (length loop < 2 \<longrightarrow> generateTrackMesh loop w = ([], []))"
  by (simp add: generateTrackMesh_closed generateTrackMesh_degenerate
      length_spec_quads length_spec_triangles)

theorem generateTrackMesh_counts_witness:
  "length (fst (generateTrackMesh [Vec3 0 0 0, Vec3 2 0 0, Vec3 2 2 0, Vec3 0 2 0] 2)) = 16 \<and>
   length (snd (generateTrackMesh [Vec3 0 0 0, Vec3 2 0 0, Vec3 2 2 0, Vec3 0 2 0] 2)) = 24 \<and>
   generateTrackMesh [Vec3 5 5 5] 2 = ([], [])"
  using generateTrackMesh_counts [of "[Vec3 0 0 0, Vec3 2 0 0, Vec3 2 2 0, Vec3 0 2 0]" 2]
    generateTrackMesh_counts [of "[Vec3 5 5 5]" 2]
  by simp

text \<open>
  C9: every entry of the index buffer is smaller than the number of vertices.  The six
  entries of edge \<open>i\<close> are the 32-bit values of \<open>4i + 0, 4i + 3, 4i + 1, 4i + 1, 4i + 3,
  4i + 2\<close>, where \<open>4i\<close> is the number of vertices appended before the quad of edge \<open>i\<close>;
  they are these numbers themselves when the vertex count fits 32 bits.
\<close>

theorem generateTrackMesh_indices_in_bounds:
  "(\<forall>ix \<in> set (snd (generateTrackMesh loop w)). ix < length (fst (generateTrackMesh loop w))) \<and>
   (\<forall>i<length loop. 2 \<le> length loop \<longrightarrow>
      length (take (4 * i) (fst (generateTrackMesh loop w))) = 4 * i \<and>
      take 6 (drop (6 * i) (snd (generateTrackMesh loop w))) =
        [u32 (4 * i + 0), u32 (4 * i + 3), u32 (4 * i + 1),
         u32 (4 * i + 1), u32 (4 * i + 3), u32 (4 * i + 2)] \<and>
      (4 * length loop \<le> 2 ^ 32 \<longrightarrow>
         take 6 (drop (6 * i) (snd (generateTrackMesh loop w))) =
           [4 * i + 0, 4 * i + 3, 4 * i + 1, 4 * i + 1, 4 * i + 3, 4 * i + 2]))"
proof (intro conjI ballI allI impI)
  fix ix assume ix: "ix \<in> set (snd (generateTrackMesh loop w))"
  show "ix < length (fst (generateTrackMesh loop w))"
  proof (cases "2 \<le> length loop")
    case True
    with ix obtain i where "i < length loop" "ix \<in> set (spec_triangles (4 * i))"
      by (auto simp: generateTrackMesh_closed)
    then have "ix < 4 * length loop"
      by (rule spec_triangles_bound)
    with True show ?thesis
      by (simp add: generateTrackMesh_closed length_spec_quads)
  next
    case False
    with ix show ?thesis
      by (simp add: generateTrackMesh_degenerate)
  qed
next
  fix i assume i: "i < length loop" and n: "2 \<le> length loop"
  have t: "snd (generateTrackMesh loop w) =
            concat (map (\<lambda>i. spec_triangles (4 * i)) [0..<length loop])"
    using n by (simp add: generateTrackMesh_closed)
  have s: "take 6 (drop (6 * i) (snd (generateTrackMesh loop w))) = spec_triangles (4 * i)"
    unfolding t using i by (intro drop_concat_blocks) (simp_all add: spec_triangles_def)
  show "length (take (4 * i) (fst (generateTrackMesh loop w))) = 4 * i"
    using i n by (simp add: generateTrackMesh_closed length_spec_quads)
  show "take 6 (drop (6 * i) (snd (generateTrackMesh loop w))) =
        [u32 (4 * i + 0), u32 (4 * i + 3), u32 (4 * i + 1),
         u32 (4 * i + 1), u32 (4 * i + 3), u32 (4 * i + 2)]"
    unfolding s spec_triangles_def by (rule refl)
  show "take 6 (drop (6 * i) (snd (generateTrackMesh loop w))) =
        [4 * i + 0, 4 * i + 3, 4 * i + 1, 4 * i + 1, 4 * i + 3, 4 * i + 2]"
    if "4 * length loop \<le> 2 ^ 32"
    unfolding s using i that by (simp add: spec_triangles_exact [of i "length loop"])
qed

theorem generateTrackMesh_indices_in_bounds_witness:
  "7 \<in> set (snd (generateTrackMesh [Vec3 0 0 0, Vec3 1 0 0] 2)) \<and>
   7 < length (fst (generateTrackMesh [Vec3 0 0 0, Vec3 1 0 0] 2)) \<and>
   take 6 (drop 6 (snd (generateTrackMesh [Vec3 0 0 0, Vec3 1 0 0] 2))) = [4, 7, 5, 5, 7, 6]"
proof -
  have "[0..<2] = [0, 1]"
    by (simp add: upt_rec)
  then have "snd (generateTrackMesh [Vec3 0 0 0, Vec3 1 0 0] 2) = [0, 3, 1, 1, 3, 2, 4, 7, 5, 5, 7, 6]"
    by (simp add: generateTrackMesh_closed spec_triangles_def u32_def)
  then have mem: "7 \<in> set (snd (generateTrackMesh [Vec3 0 0 0, Vec3 1 0 0] 2))"
    by simp
  show ?thesis
    using generateTrackMesh_indices_in_bounds [of "[Vec3 0 0 0, Vec3 1 0 0]" 2] mem
    by (auto dest: spec [of _ 1])
qed

section \<open>Properties of exportAnimationPoints\<close>

lemma export_loop:
  "fold (exportPoint fmt) ps out =
     out @ concat (map (\<lambda>p. fmt (vec_x p) @ '' '' @ fmt (vec_z p) @ '' '' @ fmt (vec_y p) @ [newline]) ps)"
  by (induction ps arbitrary: out) (simp_all add: exportPoint_def)

lemma count_newlines:
  assumes "\<And>r. newline \<notin> set (fmt r)"
  shows "length (filter (\<lambda>c. c = newline)
           (concat (map (\<lambda>p. fmt (vec_x p) @ '' '' @ fmt (vec_z p) @ '' '' @ fmt (vec_y p) @ [newline]) ps)))
         = length ps"
proof (induction ps)
  case Nil
  then show ?case by simp
next
  case (Cons p ps)
  have "filter (\<lambda>c. c = newline) (fmt r) = []" for r
    using assms [of r] by (auto simp: filter_empty_conv)
  with Cons show ?case
    by (simp add: newline_def)
qed

text \<open>
  C10: when the file can be created, the export writes one line per point, in input order;
  the line of a point holds its \<open>x\<close>, then its \<open>z\<close>, then its \<open>y\<close> coordinate, separated by
  one space and ended by a newline.  As no formatted float contains a newline, the file has
  as many lines as there are points.
\<close>

theorem exportAnimationPoints_lines:
  assumes "is_open"
  shows "exportAnimationPoints fmt is_open points filename =
           Written (concat (map (\<lambda>p. fmt (vec_x p) @ '' '' @ fmt (vec_z p) @ '' '' @
                                      fmt (vec_y p) @ [newline]) points)) \<and>
         length (map (\<lambda>p. fmt (vec_x p) @ '' '' @ fmt (vec_z p) @ '' '' @
                                      fmt (vec_y p) @ [newline]) points) = length points \<and>
         ((\<forall>r. newline \<notin> set (fmt r)) \<longrightarrow>
            (\<exists>out. exportAnimationPoints fmt is_open points filename = Written out \<and>
                   length (filter (\<lambda>c. c = newline) out) = length points))"
proof -
  have w: "exportAnimationPoints fmt is_open points filename =
           Written (concat (map (\<lambda>p. fmt (vec_x p) @ '' '' @ fmt (vec_z p) @ '' '' @
                                      fmt (vec_y p) @ [newline]) points))"
    using assms by (simp add: exportAnimationPoints_def export_loop)
  have "\<exists>out. exportAnimationPoints fmt is_open points filename = Written out \<and>
              length (filter (\<lambda>c. c = newline) out) = length points"
    if "\<forall>r. newline \<notin> set (fmt r)"
    unfolding w using count_newlines [of fmt points] that by blast
  with w show ?thesis by simp
qed

theorem exportAnimationPoints_lines_witness:
  "exportAnimationPoints (\<lambda>r. if r = 1 then ''1'' else if r = 2 then ''2'' else ''3'') True
     [Vec3 1 2 3, Vec3 3 1 2] ''animation.txt'' =
   Written (''1 3 2'' @ [newline] @ ''3 2 1'' @ [newline]) \<and>
   length (filter (\<lambda>c. c = newline) (''1 3 2'' @ [newline] @ ''3 2 1'' @ [newline])) = 2"
  using exportAnimationPoints_lines
    [of True "\<lambda>r. if r = 1 then ''1'' else if r = 2 then ''2'' else ''3''"
        "[Vec3 1 2 3, Vec3 3 1 2]" "''animation.txt''"]
  by (simp add: newline_def)

section \<open>Properties of the car placement and the model matrix\<close>

lemma dot_vscale_left: "glm_dot (vscale v k) w = k * glm_dot v w"
  by (simp add: glm_dot_def vscale_def algebra_simps)

lemma dot_commute: "glm_dot a b = glm_dot b a"
  by (simp add: glm_dot_def mult.commute)

lemma cross_vscale_left: "glm_cross (vscale a k) b = vscale (glm_cross a b) k"
  by (simp add: glm_cross_def vscale_def algebra_simps)

lemma dot_cross_left: "glm_dot (glm_cross a b) a = 0"
  by (simp add: glm_dot_def glm_cross_def algebra_simps)

lemma dot_cross_right: "glm_dot (glm_cross a b) b = 0"
  by (simp add: glm_dot_def glm_cross_def algebra_simps)

lemma lagrange: "glm_dot (glm_cross a b) (glm_cross a b) = glm_dot a a * glm_dot b b - (glm_dot a b)\<^sup>2"
  by (simp add: glm_dot_def glm_cross_def power2_eq_square algebra_simps)

lemma dot_nonneg: "0 \<le> glm_dot v v"
  by (simp add: glm_dot_def)

lemma normalize_unit:
  assumes "glm_normalize v = Inr n"
  shows "glm_dot n n = 1"
proof -
  from assms have nz: "glm_dot v v \<noteq> 0" and n: "n = vscale v (1 / sqrt (glm_dot v v))"
    by (auto simp: glm_normalize_def split: if_splits)
  have pos: "0 < glm_dot v v"
    using nz dot_nonneg [of v] by simp
  have "glm_dot n n = (1 / sqrt (glm_dot v v)) * ((1 / sqrt (glm_dot v v)) * glm_dot v v)"
    unfolding n by (simp add: dot_vscale_left dot_commute [of v "vscale v _"])
  also have "\<dots> = glm_dot v v / (sqrt (glm_dot v v) * sqrt (glm_dot v v))"
    by simp
  also have "\<dots> = 1"
    using pos by simp
  finally show ?thesis .
qed

lemma bac_cab: "glm_cross a (glm_cross b c) = vsub (vscale b (glm_dot a c)) (vscale c (glm_dot a b))"
  by (simp add: glm_cross_def glm_dot_def vsub_def vscale_def algebra_simps)

lemma cross_anti: "glm_cross a b = vscale (glm_cross b a) (- 1)"
  by (simp add: glm_cross_def vscale_def)

lemma cpp_rem_nonneg: "0 \<le> a \<Longrightarrow> 0 < b \<Longrightarrow> cpp_rem a b = a mod b"
  by (cases "a = 0") (simp_all add: cpp_rem_def)

lemma vector_at_nth: "0 \<le> i \<Longrightarrow> i < int (length xs) \<Longrightarrow> vector_at xs i = Inr (xs ! nat i)"
  by (simp add: vector_at_def)

lemma dot_zero_iff: "glm_dot v v = 0 \<longleftrightarrow> v = Vec3 0 0 0"
proof
  assume z: "glm_dot v v = 0"
  have "vec_x v * vec_x v + (vec_y v * vec_y v + vec_z v * vec_z v) = 0"
    using z by (simp add: glm_dot_def)
  then have "vec_x v = 0 \<and> vec_y v = 0 \<and> vec_z v = 0"
    by (metis add_nonneg_eq_0_iff add_nonneg_nonneg mult_eq_0_iff zero_le_square)
  then show "v = Vec3 0 0 0"
    by (cases v) simp
next
  assume "v = Vec3 0 0 0"
  then show "glm_dot v v = 0" by (simp add: glm_dot_def)
qed

lemma cross_zero_left: "glm_cross (Vec3 0 0 0) b = Vec3 0 0 0"
  by (simp add: glm_cross_def)

lemma vscale_zero_iff: "k \<noteq> 0 \<Longrightarrow> vscale v k = Vec3 0 0 0 \<longleftrightarrow> v = Vec3 0 0 0"
  by (cases v) (simp add: vscale_def)

lemma carFrame_indices:
  assumes "3 \<le> length loop" and "0 \<le> index"
  shows "carFrame loop index =
     (let N = int (length loop);
          idx = index mod N;
          P = loop ! nat ((idx - 1 + N) mod N);
          C = loop ! nat idx;
          Np = loop ! nat ((idx + 1) mod N)
      in case glm_normalize (vsub Np P) of Inl e \<Rightarrow> Inl e | Inr forward \<Rightarrow>
         (case glm_normalize (glm_cross forward (Vec3 0 1 0)) of Inl e \<Rightarrow> Inl e | Inr right \<Rightarrow>
            Inr (C, forward, right, glm_cross right forward)))"
proof -
  define N where "N = int (length loop)"
  define idx where "idx = index mod N"
  have N: "0 < N" using assms(1) by (cases loop) (simp_all add: N_def)
  have idx: "0 \<le> idx" "idx < N"
    using N by (simp_all add: idx_def)
  have r1: "cpp_rem index N = idx"
    using assms(2) N by (simp add: cpp_rem_nonneg idx_def)
  have r2: "cpp_rem (idx - 1 + N) N = (idx - 1 + N) mod N"
    using idx N by (intro cpp_rem_nonneg) simp_all
  have r3: "cpp_rem (idx + 1) N = (idx + 1) mod N"
    using idx N by (intro cpp_rem_nonneg) simp_all
  have a1: "vector_at loop ((idx - 1 + N) mod N) = Inr (loop ! nat ((idx - 1 + N) mod N))"
    using N by (intro vector_at_nth) (simp_all add: N_def [symmetric])
  have a2: "vector_at loop idx = Inr (loop ! nat idx)"
    using idx by (intro vector_at_nth) (simp_all add: N_def [symmetric])
  have a3: "vector_at loop ((idx + 1) mod N) = Inr (loop ! nat ((idx + 1) mod N))"
    using N by (intro vector_at_nth) (simp_all add: N_def [symmetric])
  show ?thesis
    unfolding carFrame_def Let_def N_def [symmetric] r1 r2 r3 idx_def [symmetric] a1 a2 a3
    by (simp split: sum.splits)
qed

lemma frame_orthonormal:
  assumes np: "glm_cross d (Vec3 0 1 0) \<noteq> Vec3 0 0 0"
  shows "\<exists>forward right.
           glm_normalize d = Inr forward \<and>
           glm_normalize (glm_cross forward (Vec3 0 1 0)) = Inr right \<and>
           glm_dot forward forward = 1 \<and> glm_dot right right = 1 \<and>
           glm_dot (glm_cross right forward) (glm_cross right forward) = 1 \<and>
           glm_dot forward right = 0 \<and>
           glm_dot forward (glm_cross right forward) = 0 \<and>
           glm_dot right (glm_cross right forward) = 0 \<and>
           glm_cross forward (glm_cross right forward) = right \<and>
           glm_cross (glm_cross right forward) right = forward"
proof -
  have dnz: "d \<noteq> Vec3 0 0 0"
    using np cross_zero_left by auto
  then have ddnz: "glm_dot d d \<noteq> 0"
    by (simp add: dot_zero_iff)
  define k where "k = 1 / sqrt (glm_dot d d)"
  define forward where "forward = vscale d k"
  have knz: "k \<noteq> 0"
    using ddnz by (simp add: k_def)
  have f: "glm_normalize d = Inr forward"
    using ddnz by (simp add: glm_normalize_def forward_def k_def)
  define c where "c = glm_cross forward (Vec3 0 1 0)"
  have "c = vscale (glm_cross d (Vec3 0 1 0)) k"
    by (simp add: c_def forward_def cross_vscale_left)
  then have cnz: "c \<noteq> Vec3 0 0 0"
    using np knz by (simp add: vscale_zero_iff)
  then have ccnz: "glm_dot c c \<noteq> 0"
    by (simp add: dot_zero_iff)
  define j where "j = 1 / sqrt (glm_dot c c)"
  define right where "right = vscale c j"
  have r: "glm_normalize (glm_cross forward (Vec3 0 1 0)) = Inr right"
    using ccnz by (simp add: glm_normalize_def right_def j_def c_def)
  have ff: "glm_dot forward forward = 1"
    using f by (rule normalize_unit)
  have rr: "glm_dot right right = 1"
    using r by (rule normalize_unit)
  have rf: "glm_dot right forward = 0"
    by (simp add: right_def dot_vscale_left c_def dot_cross_left)
  have fr: "glm_dot forward right = 0"
    using rf by (simp add: dot_commute)
  have uu: "glm_dot (glm_cross right forward) (glm_cross right forward) = 1"
    by (simp add: lagrange ff rr rf)
  have fu: "glm_dot forward (glm_cross right forward) = 0"
    by (simp add: dot_commute [of forward] dot_cross_right)
  have ru: "glm_dot right (glm_cross right forward) = 0"
    by (simp add: dot_commute [of right] dot_cross_left)
  have c1: "glm_cross forward (glm_cross right forward) = right"
    unfolding bac_cab ff fr by (cases right) (simp add: vsub_def vscale_def)
  have "glm_cross (glm_cross right forward) right = vscale (glm_cross right (glm_cross right forward)) (- 1)"
    by (rule cross_anti)
  also have "\<dots> = forward"
    unfolding bac_cab rr rf by (cases forward) (simp add: vsub_def vscale_def)
  finally have c2: "glm_cross (glm_cross right forward) right = forward" .
  show ?thesis
    using f r ff rr uu fr fu ru c1 c2 by blast
qed

text \<open>
  The frame of the car, with the coordinates in exact arithmetic.  For a loop of at least
  three points and a non-negative animation index for which the tangent
  \<open>loop[next] - loop[prev]\<close> is not parallel to the world up vector (its cross product with
  \<open>(0,1,0)\<close> is not zero), the placement returns the position \<open>loop[idx]\<close>, \<open>forward\<close> the
  normalized tangent, \<open>right = normalize (cross forward worldUp)\<close> and
  \<open>up = cross right forward\<close>.  The three axes have length one and are pairwise orthogonal.
  Their orientation is \<open>right \<times> forward = up\<close>, \<open>forward \<times> up = right\<close>, \<open>up \<times> right = forward\<close>.
\<close>

lemma carFrame_orthonormal:
  assumes "3 \<le> length loop" and "0 \<le> index"
    and "glm_cross (vsub (loop ! spec_next loop index) (loop ! spec_prev loop index)) worldUp \<noteq> Vec3 0 0 0"
  shows "\<exists>forward right up.
           carFrame loop index = Inr (loop ! spec_idx loop index, forward, right, up) \<and>
           glm_normalize (vsub (loop ! spec_next loop index) (loop ! spec_prev loop index)) = Inr forward \<and>
           glm_normalize (glm_cross forward worldUp) = Inr right \<and>
           up = glm_cross right forward \<and>
           glm_dot forward forward = 1 \<and> glm_dot right right = 1 \<and> glm_dot up up = 1 \<and>
           glm_dot forward right = 0 \<and> glm_dot forward up = 0 \<and> glm_dot right up = 0 \<and>
           glm_cross forward up = right \<and> glm_cross up right = forward"
proof -
  define d where "d = vsub (loop ! spec_next loop index) (loop ! spec_prev loop index)"
  have "0 \<le> index mod int (length loop)"
    using assms(1) by (cases loop) simp_all
  then have i: "int (spec_idx loop index) = index mod int (length loop)"
    by (simp add: spec_idx_def)
  from frame_orthonormal [of d] assms(3) obtain forward right where
    fr: "glm_normalize d = Inr forward" "glm_normalize (glm_cross forward (Vec3 0 1 0)) = Inr right"
    and o: "glm_dot forward forward = 1" "glm_dot right right = 1"
      "glm_dot (glm_cross right forward) (glm_cross right forward) = 1"
      "glm_dot forward right = 0" "glm_dot forward (glm_cross right forward) = 0"
      "glm_dot right (glm_cross right forward) = 0"
      "glm_cross forward (glm_cross right forward) = right"
      "glm_cross (glm_cross right forward) right = forward"
    unfolding d_def worldUp_def by blast
  have "carFrame loop index = Inr (loop ! spec_idx loop index, forward, right, glm_cross right forward)"
    using fr unfolding carFrame_indices [OF assms(1,2)] Let_def d_def spec_next_def spec_prev_def i
    by (simp add: spec_idx_def)
  with fr o show ?thesis
    unfolding d_def worldUp_def by blast
qed

lemma carFrame_orthonormal_example:
  "carFrame [Vec3 0 0 0, Vec3 3 0 0, Vec3 0 0 1] 4 =
     Inr (Vec3 3 0 0, Vec3 0 0 1, Vec3 (- 1) 0 0, Vec3 0 1 0)"
proof -
  let ?loop = "[Vec3 0 0 0, Vec3 3 0 0, Vec3 0 0 1]"
  have i: "spec_idx ?loop 4 = 1" "spec_prev ?loop 4 = 0" "spec_next ?loop 4 = 2"
    by (simp_all add: spec_idx_def spec_prev_def spec_next_def)
  have np: "glm_cross (vsub (?loop ! spec_next ?loop 4) (?loop ! spec_prev ?loop 4)) worldUp \<noteq> Vec3 0 0 0"
    unfolding i by (simp add: glm_cross_def vsub_def worldUp_def)
  from carFrame_orthonormal [of ?loop 4, OF _ _ np] show ?thesis
    unfolding i
    by (auto simp: glm_normalize_def glm_dot_def glm_cross_def vsub_def vscale_def worldUp_def
        split: if_splits)
qed

text \<open>
  The triple products of the frame, in the order \<open>(forward, right, up)\<close> and in the order
  \<open>(right, up, forward)\<close> of the columns of the matrix \<open>rot\<close>, are \<open>-1\<close> for every loop
  and index as above.
\<close>

lemma carFrame_triple_product:
  assumes "3 \<le> length loop" and "0 \<le> index"
    and "glm_cross (vsub (loop ! spec_next loop index) (loop ! spec_prev loop index)) worldUp \<noteq> Vec3 0 0 0"
  shows "\<exists>C forward right up.
           carFrame loop index = Inr (C, forward, right, up) \<and>
           glm_dot (glm_cross forward right) up = - 1 \<and>
           glm_dot (glm_cross right up) forward = - 1"
proof -
  from carFrame_orthonormal [OF assms] obtain forward right up where
    c: "carFrame loop index = Inr (loop ! spec_idx loop index, forward, right, up)"
    and u: "up = glm_cross right forward" "glm_dot up up = 1"
    and ff: "glm_dot forward forward = 1"
    and x: "glm_cross up right = forward"
    by blast
  have "glm_cross forward right = vscale (glm_cross right forward) (- 1)"
    by (rule cross_anti)
  then have 1: "glm_dot (glm_cross forward right) up = - 1"
    using u by (cases up) (simp add: glm_dot_def vscale_def)
  have "glm_cross right up = vscale (glm_cross up right) (- 1)"
    by (rule cross_anti)
  then have 2: "glm_dot (glm_cross right up) forward = - 1"
    using x ff by (cases forward) (simp add: glm_dot_def vscale_def)
  from c 1 2 show ?thesis by blast
qed

text \<open>
  At a negative index the remainder of C++ is negative and the read of the position is
  outside the vector.
\<close>

lemma carFrame_negative_index:
  "carFrame [Vec3 0 0 0, Vec3 7 7 7, Vec3 1 0 0] (- 1) = Inl OutOfBounds"
  by (simp add: carFrame_def cpp_rem_def vector_at_def Let_def)

text \<open>
  C5: the frame is not a right-handed basis.  On the loop \<open>(0,0,0), (7,7,7), (1,0,0)\<close> at
  index 1 the placement returns the position \<open>(7,7,7)\<close> and the frame \<open>forward = (1,0,0)\<close>,
  \<open>right = (0,0,1)\<close>, \<open>up = (0,1,0)\<close>: unit vectors, pairwise orthogonal, every
  intermediate value 0 or 1.  The triple product of \<open>(forward, right, up)\<close> is \<open>-1\<close>, and
  so is that of \<open>(right, up, forward)\<close>, the columns of the matrix that the source builds
  as the rotation of the car: this matrix exchanges the \<open>x\<close> and \<open>z\<close> axes, a reflection
  and not a rotation.
\<close>

theorem carFrame_left_handed:
  "carFrame [Vec3 0 0 0, Vec3 7 7 7, Vec3 1 0 0] 1 =
     Inr (Vec3 7 7 7, Vec3 1 0 0, Vec3 0 0 1, Vec3 0 1 0) \<and>
   glm_dot (glm_cross (Vec3 1 0 0) (Vec3 0 0 1)) (Vec3 0 1 0) = - 1 \<and>
   glm_dot (glm_cross (Vec3 0 0 1) (Vec3 0 1 0)) (Vec3 1 0 0) = - 1 \<and>
   rotationOf (Vec3 0 0 1) (Vec3 0 1 0) (Vec3 1 0 0) =
     Mat4 (Vec4 0 0 1 0) (Vec4 0 1 0 0) (Vec4 1 0 0 0) (Vec4 0 0 0 1)"
  by (simp add: carFrame_def cpp_rem_def vector_at_def glm_normalize_def glm_dot_def glm_cross_def
      vsub_def vscale_def Let_def rotationOf_def vec4_of_def mat4_identity_def)

lemma normalize_axes:
  "glm_normalize (Vec3 1 0 0) = Inr (Vec3 1 0 0)"
  "glm_normalize (Vec3 0 1 0) = Inr (Vec3 0 1 0)"
  "glm_normalize (Vec3 0 0 1) = Inr (Vec3 0 0 1)"
  by (simp_all add: glm_normalize_def glm_dot_def vscale_def)

lemma v4_simps:
  "v4scale v 1 = v" "v4add v (Vec4 0 0 0 0) = v" "v4add (Vec4 0 0 0 0) v = v"
  "v4scale v 0 = Vec4 0 0 0 0"
  by (cases v, simp add: v4scale_def v4add_def)+

lemma rotate_zero:
  "glm_rotate m (glm_radians 0) (Vec3 1 0 0) = Inr m"
  "glm_rotate m (glm_radians 0) (Vec3 0 1 0) = Inr m"
  "glm_rotate m (glm_radians 0) (Vec3 0 0 1) = Inr m"
  by (simp_all add: glm_rotate_def normalize_axes glm_radians_def vscale_def v4_simps)

lemma modelMatrix_zero_angle:
  assumes "angle obj = Vec3 0 0 0"
  shows "modelMatrix obj i =
           (case baseModel obj i of Inl e \<Rightarrow> Inl e | Inr m \<Rightarrow> Inr (glm_scale m (scale obj)))"
  by (simp add: modelMatrix_def assms rotate_zero split: sum.splits)

text \<open>
  C6: the model matrix of the animated object is not \<open>T \<cdot> R \<cdot> S\<close>.  After the product
  \<open>T \<cdot> R \<cdot> S\<close> the render loop applies the three rotations by \<open>angle\<close> and the scale once
  more, for every object.  For the car of the generated scene (scale \<open>0.5\<close>, angle \<open>0\<close>) the
  matrix sent to the shader scales by \<open>0.25\<close>, where \<open>T \<cdot> R \<cdot> S\<close> scales by \<open>0.5\<close>.
\<close>

theorem modelMatrix_scales_twice:
  "modelMatrix \<lparr>name = ''Carro'', scale = Vec3 (1 / 2) (1 / 2) (1 / 2), position = Vec3 0 0 0,
                angle = Vec3 0 0 0,
                animationPositions = [Vec3 0 0 0, Vec3 7 7 7, Vec3 1 0 0]\<rparr> 1 =
     Inr (Mat4 (Vec4 0 0 (1 / 4) 0) (Vec4 0 (1 / 4) 0 0) (Vec4 (1 / 4) 0 0 0) (Vec4 7 7 7 1)) \<and>
   mat4_mul (mat4_mul (glm_translate mat4_identity (Vec3 7 7 7))
                      (rotationOf (Vec3 0 0 1) (Vec3 0 1 0) (Vec3 1 0 0)))
            (glm_scale mat4_identity (Vec3 (1 / 2) (1 / 2) (1 / 2))) =
     Mat4 (Vec4 0 0 (1 / 2) 0) (Vec4 0 (1 / 2) 0 0) (Vec4 (1 / 2) 0 0 0) (Vec4 7 7 7 1)"
proof -
  have f: "carFrame [Vec3 0 0 0, Vec3 7 7 7, Vec3 1 0 0] 1 =
           Inr (Vec3 7 7 7, Vec3 1 0 0, Vec3 0 0 1, Vec3 0 1 0)"
    by (simp add: carFrame_def cpp_rem_def vector_at_def glm_normalize_def glm_dot_def glm_cross_def
        vsub_def vscale_def Let_def)
  have trs: "mat4_mul (mat4_mul (glm_translate mat4_identity (Vec3 7 7 7))
                      (rotationOf (Vec3 0 0 1) (Vec3 0 1 0) (Vec3 1 0 0)))
            (glm_scale mat4_identity (Vec3 (1 / 2) (1 / 2) (1 / 2))) =
     Mat4 (Vec4 0 0 (1 / 2) 0) (Vec4 0 (1 / 2) 0 0) (Vec4 (1 / 2) 0 0 0) (Vec4 7 7 7 1)"
    by (simp add: mat4_mul_def mat4_mul_vec4_def glm_translate_def glm_scale_def rotationOf_def
        mat4_identity_def v4add_def v4scale_def vec4_of_def)
  show ?thesis
    by (simp add: modelMatrix_zero_angle baseModel_def f trs) (simp add: glm_scale_def v4scale_def)
qed

section \<open>Properties of the binary32 rounding\<close>

lemma binade_from_range: "e \<le> binade_from k e a \<and> binade_from k e a \<le> e + int k"
  by (induction k e a rule: binade_from.induct) auto

lemma binade_from_upper:
  "a < 2 powi (e + int k + 1) \<Longrightarrow> a < 2 powi (binade_from k e a + 1)"
  by (induction k e a rule: binade_from.induct) (auto simp: algebra_simps)

lemma binade_from_lower:
  "2 powi e \<le> a \<Longrightarrow> 2 powi (binade_from k e a) \<le> a"
  by (induction k e a rule: binade_from.induct) auto

lemma binade_range: "- 126 \<le> binade a \<and> binade a \<le> 128"
  using binade_from_range [of "- 126" 254 a] by (simp add: binade_def)

lemma binade_upper: "a < 2 powi 129 \<Longrightarrow> a < 2 powi (binade a + 1)"
  using binade_from_upper [of a "- 126" 254] by (simp add: binade_def)

lemma binade_lower: "2 powi (- 126) \<le> a \<Longrightarrow> 2 powi (binade a) \<le> a"
  unfolding binade_def by (rule binade_from_lower)

lemma binade_small: "a < 2 powi (- 125) \<Longrightarrow> binade a = - 126"
  by (simp add: binade_def eval_nat_numeral)

lemma powi_less_iff: "(2::real) powi m < 2 powi n \<longleftrightarrow> m < n"
  by (metis linorder_neqE_linordered_idom not_less_iff_gr_or_eq one_less_numeral_iff
      power_int_strict_increasing semiring_norm(76))

lemma powi_le_iff: "(2::real) powi m \<le> 2 powi n \<longleftrightarrow> m \<le> n"
  by (metis powi_less_iff linorder_not_less)

lemma binade_eq:
  assumes "- 126 \<le> e" "e \<le> 127" "2 powi e \<le> a" "a < 2 powi (e + 1)"
  shows "binade a = e"
proof -
  have up: "a < 2 powi (binade a + 1)"
  proof (rule binade_upper)
    have "(2::real) powi (e + 1) \<le> 2 powi 129"
      using assms(2) by (simp only: powi_le_iff)
    with assms(4) show "a < 2 powi 129" by linarith
  qed
  show ?thesis
  proof (cases "a < 2 powi (- 125)")
    case True
    then have b: "binade a = - 126" by (rule binade_small)
    from True assms(3) have "(2::real) powi e < 2 powi (- 125)" by linarith
    then have "e < - 125" by (simp only: powi_less_iff)
    with assms(1) b show ?thesis by simp
  next
    case False
    then have "2 powi (- 126) \<le> a"
      by (smt (verit) powi_le_iff)
    then have lo: "2 powi (binade a) \<le> a" by (rule binade_lower)
    from lo assms(4) have "(2::real) powi (binade a) < 2 powi (e + 1)" by linarith
    then have 1: "binade a < e + 1" by (simp only: powi_less_iff)
    from up assms(3) have "(2::real) powi e < 2 powi (binade a + 1)" by linarith
    then have 2: "e < binade a + 1" by (simp only: powi_less_iff)
    from 1 2 show ?thesis by simp
  qed
qed

lemma rhe_error: "\<bar>of_int (round_half_even y) - y\<bar> \<le> 1 / 2"
proof -
  have "of_int \<lfloor>y\<rfloor> \<le> y" "y < of_int \<lfloor>y\<rfloor> + 1"
    by linarith+
  then show ?thesis
    by (auto simp: round_half_even_def Let_def)
qed

lemma rhe_of_int: "round_half_even (of_int n) = n"
  by (simp add: round_half_even_def)

lemma rhe_nonneg: "0 \<le> y \<Longrightarrow> 0 \<le> round_half_even y"
  by (auto simp: round_half_even_def Let_def)

lemma fround_zero: "fround 0 = Finite 0"
  by (simp add: fround_def rhe_of_int [of 0, simplified])

lemma powi_pos: "0 < (2::real) powi n"
  by simp

lemma powi_half: "(2::real) powi (n - 1) = 2 powi n / 2"
  by (simp add: power_int_diff)

lemma fround_magnitude:
  fixes x :: real
  defines "a \<equiv> \<bar>x\<bar>"
  defines "r \<equiv> of_int (round_half_even (a / 2 powi (binade a - 23))) * 2 powi (binade a - 23)"
  shows "fround x = (if 2 powi 128 \<le> r then (if 0 < x then PlusInf else MinusInf)
                     else Finite (sgn x * r))"
    and "\<bar>r - a\<bar> \<le> 2 powi (binade a - 23) / 2"
    and "0 \<le> r"
proof -
  show "fround x = (if 2 powi 128 \<le> r then (if 0 < x then PlusInf else MinusInf)
                     else Finite (sgn x * r))"
    by (simp add: fround_def Let_def r_def a_def)
  define u where "u = (2::real) powi (binade a - 23)"
  have u: "0 < u" by (simp add: u_def)
  have "\<bar>of_int (round_half_even (a / u)) - a / u\<bar> \<le> 1 / 2"
    by (rule rhe_error)
  then have "\<bar>of_int (round_half_even (a / u)) - a / u\<bar> * u \<le> 1 / 2 * u"
    using u by (intro mult_right_mono) simp_all
  moreover have "(of_int (round_half_even (a / u)) - a / u) * u =
                 of_int (round_half_even (a / u)) * u - a"
    using u by (simp add: left_diff_distrib)
  then have "\<bar>of_int (round_half_even (a / u)) - a / u\<bar> * u =
                 \<bar>of_int (round_half_even (a / u)) * u - a\<bar>"
    using u by (metis abs_mult abs_of_pos)
  ultimately have "\<bar>of_int (round_half_even (a / u)) * u - a\<bar> \<le> u / 2"
    by linarith
  then show "\<bar>r - a\<bar> \<le> 2 powi (binade a - 23) / 2"
    by (simp only: r_def u_def)
  have "0 \<le> a / u" using u by (simp add: a_def)
  then have "0 \<le> round_half_even (a / u)" by (rule rhe_nonneg)
  then show "0 \<le> r" using u by (simp add: r_def u_def)
qed

lemma binade_below:
  fixes a :: real
  assumes "a < 2 powi k" and "- 125 \<le> k"
  shows "binade a \<le> k - 1"
proof (cases "a < 2 powi (- 125)")
  case True
  then have "binade a = - 126" by (rule binade_small)
  with assms(2) show ?thesis by simp
next
  case False
  then have "2 powi (- 126) \<le> a"
    by (smt (verit) powi_le_iff)
  then have "2 powi (binade a) \<le> a" by (rule binade_lower)
  with assms(1) have "(2::real) powi (binade a) < 2 powi k" by linarith
  then have "binade a < k" by (simp only: powi_less_iff)
  then show ?thesis by simp
qed

lemma fround_error:
  fixes x :: real
  assumes "\<bar>x\<bar> < 2 powi k" and "- 125 \<le> k" and "k \<le> 127"
  shows "\<exists>r. fround x = Finite r \<and> \<bar>r - x\<bar> \<le> 2 powi (k - 25) \<and> (0 \<le> x \<longrightarrow> 0 \<le> r) \<and> (x \<le> 0 \<longrightarrow> r \<le> 0)"
proof -
  define a where "a = \<bar>x\<bar>"
  define r :: real
    where "r = of_int (round_half_even (a / 2 powi (binade a - 23))) * 2 powi (binade a - 23)"
  have fr: "fround x = (if 2 powi 128 \<le> r then (if 0 < x then PlusInf else MinusInf)
                       else Finite (sgn x * r))"
    and err: "\<bar>r - a\<bar> \<le> 2 powi (binade a - 23) / 2" and r0: "0 \<le> r"
    using fround_magnitude [of x] by (simp_all add: a_def r_def)
  have "binade a \<le> k - 1"
    using assms(1,2) unfolding a_def by (rule binade_below)
  then have "binade a - 23 \<le> k - 24" by simp
  then have "(2::real) powi (binade a - 23) \<le> 2 powi (k - 24)"
    by (simp only: powi_le_iff)
  then have "(2::real) powi (binade a - 23) / 2 \<le> 2 powi (k - 25)"
    using powi_half [of "k - 24"] by simp
  with err have e: "\<bar>r - a\<bar> \<le> 2 powi (k - 25)" by linarith
  have "(2::real) powi (k - 25) < 2 powi k"
    by (simp only: powi_less_iff)
  moreover have "(2::real) powi k \<le> 2 powi 127"
    using assms(3) by (simp only: powi_le_iff)
  moreover have "(2::real) powi 128 = 2 * 2 powi 127"
    by simp
  ultimately have "r < 2 powi 128"
    using e assms(1) unfolding a_def by (smt (verit) powi_pos)
  then have f: "fround x = Finite (sgn x * r)"
    using fr by simp
  have "\<bar>sgn x * r - x\<bar> = \<bar>r - a\<bar>"
  proof (cases "x = 0")
    case True
    then have "a = 0" by (simp add: a_def)
    then have "r = 0" by (simp add: r_def rhe_of_int [of 0, simplified])
    then show ?thesis using True \<open>a = 0\<close> by simp
  next
    case False
    then show ?thesis
      by (cases "0 < x") (simp_all add: a_def sgn_real_def)
  qed
  with e have "\<bar>sgn x * r - x\<bar> \<le> 2 powi (k - 25)" by simp
  moreover have "0 \<le> x \<longrightarrow> 0 \<le> sgn x * r" "x \<le> 0 \<longrightarrow> sgn x * r \<le> 0"
    using r0 by (auto simp: sgn_real_def mult_nonneg_nonpos2)
  ultimately show ?thesis
    using f by blast
qed

lemma fround_eval:
  fixes x :: real
  assumes "- 126 \<le> e" "e \<le> 126" "2 powi e \<le> \<bar>x\<bar>" "\<bar>x\<bar> < 2 powi (e + 1)"
    and "round_half_even (\<bar>x\<bar> / 2 powi (e - 23)) = m"
  shows "fround x = Finite (sgn x * (of_int m * 2 powi (e - 23)))"
proof -
  have b: "binade \<bar>x\<bar> = e"
    using assms(1-4) by (intro binade_eq) simp_all
  define r where "r = of_int m * (2::real) powi (e - 23)"
  have fr: "fround x = (if 2 powi 128 \<le> r then (if 0 < x then PlusInf else MinusInf)
                       else Finite (sgn x * r))"
    and err: "\<bar>r - \<bar>x\<bar>\<bar> \<le> 2 powi (e - 23) / 2"
    using fround_magnitude [of x] by (simp_all add: b assms(5) r_def)
  have "(2::real) powi (e - 23) < 2 powi (e + 1)"
    by (simp only: powi_less_iff)
  then have "r < 2 * 2 powi (e + 1)"
    using err assms(4) by (smt (verit) powi_pos field_sum_of_halves)
  moreover have "(2::real) powi (e + 1) \<le> 2 powi 127"
    using assms(2) by (simp only: powi_le_iff)
  moreover have "(2::real) powi 128 = 2 * 2 powi 127"
    by simp
  ultimately have "r < 2 powi 128" by linarith
  with fr show ?thesis by (simp add: r_def)
qed

lemma fround_rel_error:
  fixes x :: real
  assumes "2 powi (- 126) \<le> \<bar>x\<bar>" and "\<bar>x\<bar> < 2 powi 127"
  shows "\<exists>r. fround x = Finite r \<and> \<bar>r - x\<bar> \<le> \<bar>x\<bar> * 2 powi (- 24) \<and>
             (0 \<le> x \<longrightarrow> 0 \<le> r) \<and> (x \<le> 0 \<longrightarrow> r \<le> 0)"
proof -
  define a where "a = \<bar>x\<bar>"
  define r :: real
    where "r = of_int (round_half_even (a / 2 powi (binade a - 23))) * 2 powi (binade a - 23)"
  have fr: "fround x = (if 2 powi 128 \<le> r then (if 0 < x then PlusInf else MinusInf)
                       else Finite (sgn x * r))"
    and err: "\<bar>r - a\<bar> \<le> 2 powi (binade a - 23) / 2" and r0: "0 \<le> r"
    using fround_magnitude [of x] by (simp_all add: a_def r_def)
  have lo: "2 powi (binade a) \<le> a"
    using assms(1) unfolding a_def by (rule binade_lower)
  have "(2::real) powi (binade a - 23) / 2 = 2 powi (binade a) * 2 powi (- 24)"
    by (simp add: power_int_diff power_int_minus)
  also have "\<dots> \<le> a * 2 powi (- 24)"
    using lo by (intro mult_right_mono) simp_all
  finally have e: "\<bar>r - a\<bar> \<le> a * 2 powi (- 24)"
    using err by linarith
  have "a * 2 powi (- 24) \<le> a"
    using assms(1) unfolding a_def by (simp add: power_int_minus field_simps)
  then have "r \<le> 2 * a" using e by linarith
  moreover have "(2::real) powi 128 = 2 * 2 powi 127"
    by simp
  ultimately have "r < 2 powi 128"
    using assms(2) unfolding a_def by linarith
  then have f: "fround x = Finite (sgn x * r)"
    using fr by simp
  have xnz: "x \<noteq> 0"
    using assms(1) by (smt (verit) powi_pos)
  then have "\<bar>sgn x * r - x\<bar> = \<bar>r - a\<bar>"
    by (cases "0 < x") (simp_all add: a_def sgn_real_def)
  with e have "\<bar>sgn x * r - x\<bar> \<le> \<bar>x\<bar> * 2 powi (- 24)" by (simp add: a_def)
  moreover have "0 \<le> x \<longrightarrow> 0 \<le> sgn x * r" "x \<le> 0 \<longrightarrow> sgn x * r \<le> 0"
    using r0 by (auto simp: sgn_real_def mult_nonneg_nonpos2)
  ultimately show ?thesis
    using f by blast
qed

lemma powi_nonneg_int: "0 \<le> n \<Longrightarrow> (2::real) powi n = of_int (2 ^ nat n)"
  by (simp add: power_int_def)

lemma fround_exact:
  fixes x :: real
  assumes x: "x = of_int m * 2 powi q" and m: "\<bar>m\<bar> < 2 ^ 24" and q: "- 149 \<le> q" "q \<le> 103"
  shows "fround x = Finite x"
proof -
  define a where "a = \<bar>x\<bar>"
  define e where "e = binade a"
  have a: "a = of_int \<bar>m\<bar> * 2 powi q"
    by (simp add: a_def x abs_mult)
  have m24: "(of_int \<bar>m\<bar> :: real) < 2 powi 24"
  proof -
    have "(of_int \<bar>m\<bar> :: real) < of_int (2 ^ 24)"
      using m by (simp only: of_int_less_iff)
    then show ?thesis by simp
  qed
  have eq: "e - 23 \<le> q"
  proof (cases "a < 2 powi (- 125)")
    case True
    then have "e = - 126" unfolding e_def by (rule binade_small)
    with q show ?thesis by simp
  next
    case False
    then have "2 powi (- 126) \<le> a"
      by (smt (verit) powi_le_iff)
    then have "2 powi e \<le> a" unfolding e_def by (rule binade_lower)
    also have "a < 2 powi 24 * 2 powi q"
      unfolding a using m24 by (intro mult_strict_right_mono) simp_all
    also have "\<dots> = 2 powi (24 + q)"
      by (simp add: power_int_add)
    finally have "e < 24 + q" by (simp only: powi_less_iff)
    then show ?thesis by simp
  qed
  have "a / 2 powi (e - 23) = of_int \<bar>m\<bar> * 2 powi (q - (e - 23))"
    by (simp add: a power_int_diff)
  also have "\<dots> = of_int (\<bar>m\<bar> * 2 ^ nat (q - (e - 23)))"
    using eq by (simp add: powi_nonneg_int)
  finally have "round_half_even (a / 2 powi (e - 23)) = \<bar>m\<bar> * 2 ^ nat (q - (e - 23))"
    by (simp only: rhe_of_int)
  then have "of_int (round_half_even (a / 2 powi (e - 23))) * 2 powi (e - 23) =
             (of_int \<bar>m\<bar> :: real) * (2 powi (q - (e - 23)) * 2 powi (e - 23))"
    using eq by (simp add: powi_nonneg_int)
  also have "\<dots> = a"
    by (simp add: a power_int_add [symmetric])
  finally have r: "of_int (round_half_even (a / 2 powi (e - 23))) * 2 powi (e - 23) = a" .
  have "a < 2 powi 24 * 2 powi q"
    unfolding a using m24 by (intro mult_strict_right_mono) simp_all
  also have "\<dots> = 2 powi (24 + q)"
    by (simp add: power_int_add)
  also have "\<dots> \<le> 2 powi 128"
    using q by (simp only: powi_le_iff)
  finally have "a < 2 powi 128" .
  then have "fround x = Finite (sgn x * a)"
    using fround_magnitude(1) [of x] r unfolding a_def [symmetric] e_def [symmetric]
    by simp
  also have "sgn x * a = x"
    by (simp add: a_def sgn_real_def)
  finally show ?thesis .
qed

lemma rhe_lower: "of_int n + 1 / 2 < y \<Longrightarrow> n + 1 \<le> round_half_even y"
proof -
  assume y: "of_int n + 1 / 2 < y"
  then have f: "n \<le> \<lfloor>y\<rfloor>" by linarith
  show ?thesis
  proof (cases "n = \<lfloor>y\<rfloor>")
    case True
    with y have "1 / 2 < y - of_int \<lfloor>y\<rfloor>" by simp
    then have "round_half_even y = \<lfloor>y\<rfloor> + 1"
      by (simp add: round_half_even_def Let_def)
    with True show ?thesis by simp
  next
    case False
    with f have "n + 1 \<le> \<lfloor>y\<rfloor>" by simp
    moreover have "\<lfloor>y\<rfloor> \<le> round_half_even y"
      by (simp add: round_half_even_def Let_def)
    ultimately show ?thesis by linarith
  qed
qed

lemma rhe_upper: "y \<le> of_int N \<Longrightarrow> round_half_even y \<le> N"
proof -
  assume y: "y \<le> of_int N"
  show ?thesis
  proof (cases "\<lfloor>y\<rfloor> = N")
    case True
    then have "y = of_int N" using y by linarith
    then show ?thesis by (simp add: rhe_of_int)
  next
    case False
    moreover have "\<lfloor>y\<rfloor> \<le> N" using y by (simp add: floor_le_iff)
    ultimately have "\<lfloor>y\<rfloor> + 1 \<le> N" by simp
    moreover have "round_half_even y \<le> \<lfloor>y\<rfloor> + 1"
      by (simp add: round_half_even_def Let_def)
    ultimately show ?thesis by linarith
  qed
qed

lemma rhe_floor: "of_int n \<le> y \<Longrightarrow> y < of_int n + 1 / 2 \<Longrightarrow> round_half_even y = n"
proof -
  assume a: "of_int n \<le> y" "y < of_int n + 1 / 2"
  then have "\<lfloor>y\<rfloor> = n" by linarith
  with a show ?thesis
    by (simp add: round_half_even_def Let_def)
qed

lemma fround_no_cross:
  fixes x :: real
  assumes "\<bar>x\<bar> \<le> 2 powi k" and "- 125 \<le> k" and "k \<le> 103"
  shows "\<exists>r. fround x = Finite r \<and> \<bar>r\<bar> \<le> 2 powi k \<and> (x \<le> 0 \<longrightarrow> r \<le> 0)"
proof (cases "\<bar>x\<bar> = 2 powi k")
  case True
  then have "x = of_int (if 0 \<le> x then 1 else - 1) * 2 powi k"
    by (auto simp: abs_if split: if_splits)
  then have "fround x = Finite x"
    using assms(2,3) by (intro fround_exact [of _ "if 0 \<le> x then 1 else - 1" k]) simp_all
  with True show ?thesis by auto
next
  case False
  define a where "a = \<bar>x\<bar>"
  define e where "e = binade a"
  define r :: real
    where "r = of_int (round_half_even (a / 2 powi (e - 23))) * 2 powi (e - 23)"
  have ak: "a < 2 powi k"
    using False assms(1) by (simp add: a_def)
  have fr: "fround x = (if 2 powi 128 \<le> r then (if 0 < x then PlusInf else MinusInf)
                       else Finite (sgn x * r))"
    and r0: "0 \<le> r"
    using fround_magnitude [of x] by (simp_all add: a_def r_def e_def)
  have ek: "e \<le> k - 1"
    unfolding e_def using ak assms(2) by (rule binade_below)
  have "(2::real) powi k \<le> 2 powi 129"
    using assms(3) by (simp only: powi_le_iff)
  with ak have "a < 2 powi 129" by linarith
  then have up: "a < 2 powi (e + 1)"
    unfolding e_def by (rule binade_upper)
  have "a / 2 powi (e - 23) < 2 powi (e + 1) / 2 powi (e - 23)"
    using up by (intro divide_strict_right_mono) simp_all
  also have "\<dots> = 2 powi 24"
    by (simp add: power_int_diff [symmetric])
  finally have "a / 2 powi (e - 23) \<le> of_int 16777216"
    by simp
  then have "round_half_even (a / 2 powi (e - 23)) \<le> 16777216"
    by (rule rhe_upper)
  then have "(of_int (round_half_even (a / 2 powi (e - 23))) :: real) \<le> 2 powi 24"
    by (simp add: of_int_le_numeral_iff [symmetric] del: of_int_le_numeral_iff)
  then have "r \<le> 2 powi 24 * 2 powi (e - 23)"
    unfolding r_def by (intro mult_right_mono) simp_all
  also have "\<dots> = 2 powi (24 + (e - 23))"
    by (rule power_int_add [symmetric]) simp
  also have "\<dots> \<le> 2 powi k"
    using ek by (simp only: powi_le_iff)
  finally have rk: "r \<le> 2 powi k" .
  have "(2::real) powi k < 2 powi 128"
    using assms(3) by (simp only: powi_less_iff)
  with rk have "fround x = Finite (sgn x * r)"
    using fr by simp
  moreover have "\<bar>sgn x * r\<bar> \<le> 2 powi k"
    using rk r0 by (simp add: sgn_real_def abs_mult)
  moreover have "x \<le> 0 \<longrightarrow> sgn x * r \<le> 0"
    using r0 by (auto simp: sgn_real_def)
  ultimately show ?thesis by blast
qed

lemma fround_just_below:
  assumes "- 67108866 \<le> x" and "x < - 67108864"
  shows "fround x = Finite (- 67108864)"
proof -
  have "round_half_even (\<bar>x\<bar> / 2 powi (26 - 23)) = 8388608"
    using assms by (intro rhe_floor) simp_all
  with assms fround_eval [of 26 x 8388608] show ?thesis
    by (simp add: sgn_real_def)
qed

section \<open>Properties of generateBSplinePoints\<close>

lemma counter_Suc: "counter step (Suc k) = fadd (counter step k) step"
  by (simp add: counter_def)

lemma counter_0: "counter step 0 = Finite 0"
  by (simp add: counter_def)

lemma funpow_shift: "((\<lambda>t. fadd t step) ^^ k) (fadd t step) = ((\<lambda>t. fadd t step) ^^ Suc k) t"
  by (simp only: funpow_Suc_right o_apply)

lemma map_upt_shift: "map h [0..<Suc n] = h 0 # map (\<lambda>k. h (Suc k)) [0..<n]"
  by (induction n) simp_all

lemma sampleLoop_run:
  assumes "\<forall>k<n. \<exists>r. ((\<lambda>t. fadd t step) ^^ k) t = Finite r \<and> r \<le> 1"
    and "\<not> fle (((\<lambda>t. fadd t step) ^^ n) t) (Finite 1)"
  shows "sampleLoop cps i step t curve =
           Some (Inr (curve @ map (\<lambda>k. bsplineSample cps i (fval (((\<lambda>t. fadd t step) ^^ k) t))) [0..<n]))"
  using assms
proof (induction n arbitrary: t curve)
  case 0
  then show ?case
    by (subst sampleLoop.simps) simp
next
  case (Suc n)
  from Suc.prems(1) [rule_format, of 0] obtain r where r: "t = Finite r" "r \<le> 1"
    by auto
  have 1: "\<forall>k<n. \<exists>r. ((\<lambda>t. fadd t step) ^^ k) (fadd t step) = Finite r \<and> r \<le> 1"
    using Suc.prems(1) unfolding funpow_shift by auto
  have 2: "\<not> fle (((\<lambda>t. fadd t step) ^^ n) (fadd t step)) (Finite 1)"
    using Suc.prems(2) unfolding funpow_shift .
  have "sampleLoop cps i step t curve =
        sampleLoop cps i step (fadd t step) (curve @ [bsplineSample cps i r])"
    by (subst sampleLoop.simps) (simp add: r)
  also have "\<dots> = Some (Inr ((curve @ [bsplineSample cps i r]) @
       map (\<lambda>k. bsplineSample cps i (fval (((\<lambda>t. fadd t step) ^^ k) (fadd t step)))) [0..<n]))"
    by (rule Suc.IH [OF 1 2])
  also have "(curve @ [bsplineSample cps i r]) @
       map (\<lambda>k. bsplineSample cps i (fval (((\<lambda>t. fadd t step) ^^ k) (fadd t step)))) [0..<n] =
       curve @ map (\<lambda>k. bsplineSample cps i (fval (((\<lambda>t. fadd t step) ^^ k) t))) [0..<Suc n]"
    unfolding funpow_shift map_upt_shift
    by (simp add: r fval_def del: funpow.simps)
  finally show ?case .
qed

lemma sampleLoop_stops:
  assumes "stops_after step n"
  shows "sampleLoop cps i step (Finite 0) curve =
           Some (Inr (curve @ map (\<lambda>k. bsplineSample cps i (fval (counter step k))) [0..<n]))"
  using assms sampleLoop_run [of n step "Finite 0" cps i curve]
  unfolding stops_after_def counter_def by blast

lemma windowLoop_stops:
  assumes "stops_after step n"
  shows "windowLoop cps step i curve =
           Some (Inr (curve @ concat (map (\<lambda>j. map (\<lambda>k. bsplineSample cps j (fval (counter step k))) [0..<n])
                                          [i..<length cps - 3])))"
  using assms
proof (induction cps step i curve rule: windowLoop.induct)
  case (1 cps step i curve)
  show ?case
  proof (cases "i + 3 < length cps")
    case True
    have s: "sampleLoop cps i step (Finite 0) curve =
             Some (Inr (curve @ map (\<lambda>k. bsplineSample cps i (fval (counter step k))) [0..<n]))"
      using "1.prems" by (rule sampleLoop_stops)
    have upt: "[i..<length cps - 3] = i # [i + 1..<length cps - 3]"
      using True by (simp add: upt_conv_Cons)
    have "windowLoop cps step i curve =
          windowLoop cps step (i + 1)
            (curve @ map (\<lambda>k. bsplineSample cps i (fval (counter step k))) [0..<n])"
      by (subst windowLoop.simps) (simp add: True s)
    also have "\<dots> = Some (Inr ((curve @ map (\<lambda>k. bsplineSample cps i (fval (counter step k))) [0..<n]) @
        concat (map (\<lambda>j. map (\<lambda>k. bsplineSample cps j (fval (counter step k))) [0..<n])
                    [i + 1..<length cps - 3])))"
      using True s "1.prems" by (intro "1.IH") simp_all
    finally show ?thesis
      unfolding upt by simp
  next
    case False
    then have "[i..<length cps - 3] = []" by simp
    with False show ?thesis
      by (subst windowLoop.simps) simp
  qed
qed

lemma generateBSplinePoints_stops:
  assumes "4 \<le> length cps" and "stops_after (fdiv (Finite 1) (float_of_int P)) n"
  shows "generateBSplinePoints cps P =
           Some (Inr (curveOf cps (fdiv (Finite 1) (float_of_int P)) n))"
  using assms(1) windowLoop_stops [OF assms(2), of cps 0 "[]"]
  by (simp add: generateBSplinePoints_def curveOf_def Let_def)

lemma generateBSplinePoints_short:
  "length cps < 4 \<Longrightarrow> generateBSplinePoints cps P = Some (Inr [])"
  by (simp add: generateBSplinePoints_def)

lemma length_curveOf: "length (curveOf cps step n) = (length cps - 3) * n"
proof -
  have "length (concat (map (\<lambda>j. map (f j) [0..<n]) [0..<m])) = m * n" for f :: "nat \<Rightarrow> nat \<Rightarrow> vec3" and m
    by (induction m) simp_all
  then show ?thesis
    unfolding curveOf_def .
qed

lemma bsplineSample_0:
  "bsplineSample cps i 0 =
     vadd (vadd (vscale (cps ! i) (1 / 6)) (vscale (cps ! (i + 1)) (4 / 6))) (vscale (cps ! (i + 2)) (1 / 6))"
  by (simp add: bsplineSample_def mat4x3_mul_vec4_def mat4x3_mul_mat4_def BSplineMatrix_def
      vadd_def vscale_def Let_def)

lemma hd_curveOf:
  assumes "4 \<le> length cps" and "0 < n"
  shows "curveOf cps step n \<noteq> [] \<and> hd (curveOf cps step n) = bsplineSample cps 0 0"
proof -
  obtain m where m: "length cps - 3 = Suc m"
    using assms(1) by (cases "length cps - 3") simp_all
  obtain n' where n: "n = Suc n'"
    using assms(2) by (cases n) simp_all
  show ?thesis
    unfolding curveOf_def m n map_upt_shift
    by (simp add: counter_0 fval_def del: upt_Suc)
qed

lemma sampleLoop_diverges:
  assumes "\<forall>k. \<exists>r. ((\<lambda>t. fadd t step) ^^ k) t = Finite r \<and> r \<le> 1"
  shows "sampleLoop cps i step t curve = None"
proof (rule ccontr)
  assume "sampleLoop cps i step t curve \<noteq> None"
  then obtain y where y: "sampleLoop cps i step t curve = Some y"
    by auto
  have "\<not> (\<forall>k. \<exists>r. ((\<lambda>t. fadd t step) ^^ k) t = Finite r \<and> r \<le> 1)"
  proof (rule sampleLoop.raw_induct
      [where P = "\<lambda>cps i step t curve y. \<not> (\<forall>k. \<exists>r. ((\<lambda>t. fadd t step) ^^ k) t = Finite r \<and> r \<le> 1)",
        OF _ y])
    fix f cps i step t curve y
    assume IH: "\<And>cps i step t curve y. f cps i step t curve = Some y \<Longrightarrow>
                  \<not> (\<forall>k. \<exists>r. ((\<lambda>t. fadd t step) ^^ k) t = Finite r \<and> r \<le> 1)"
      and body: "(if fle t (Finite 1) then
                    (case t of
                       Finite r \<Rightarrow> f cps i step (fadd t step) (curve @ [bsplineSample cps i r])
                     | _ \<Rightarrow> Some (Inl NotANumber))
                  else Some (Inr curve)) = Some y"
    show "\<not> (\<forall>k. \<exists>r. ((\<lambda>t. fadd t step) ^^ k) t = Finite r \<and> r \<le> 1)"
    proof
      assume inv: "\<forall>k. \<exists>r. ((\<lambda>t. fadd t step) ^^ k) t = Finite r \<and> r \<le> 1"
      from inv [rule_format, of 0] obtain r where r: "t = Finite r" "r \<le> 1"
        by auto
      have next_inv: "\<forall>k. \<exists>r. ((\<lambda>t. fadd t step) ^^ k) (fadd t step) = Finite r \<and> r \<le> 1"
        unfolding funpow_shift using inv by blast
      from body r have "f cps i step (fadd t step) (curve @ [bsplineSample cps i r]) = Some y"
        by simp
      from IH [OF this] next_inv show False
        by blast
    qed
  qed
  with assms show False by blast
qed

lemma counter_step: "k = j + 1 \<Longrightarrow> counter step k = fadd (counter step j) step"
  by (simp add: counter_def)

lemma stops_afterI:
  assumes "map (counter step) [0..<n] = map Finite rs"
    and "\<forall>r\<in>set rs. r \<le> 1"
    and "\<not> fle (counter step n) (Finite 1)"
  shows "stops_after step n"
proof -
  have len: "length rs = n"
    using arg_cong [OF assms(1), of length] by simp
  have "\<exists>r. counter step k = Finite r \<and> r \<le> 1" if "k < n" for k
  proof -
    have "counter step k = map (counter step) [0..<n] ! k"
      using that by simp
    also have "\<dots> = Finite (rs ! k)"
      unfolding assms(1) using that len by simp
    finally show ?thesis
      using assms(2) that len by auto
  qed
  with assms(3) show ?thesis
    by (simp add: stops_after_def)
qed

lemma four_step: "fdiv (Finite 1) (float_of_int 4) = Finite (1 / 4)"
  using fround_exact [of 4 4 0] fround_eval [of "- 2" "1 / 4" 8388608]
  by (simp add: float_of_int_def round_half_even_def Let_def power_int_minus)

lemma four_c0: "counter (Finite (1 / 4)) 0 = Finite 0"
  by (rule counter_0)

lemma four_c1: "counter (Finite (1 / 4)) 1 = Finite (1 / 4)"
  using counter_step [of 1 0 "Finite (1 / 4)"] four_c0 fround_eval [of "- 2" "0 + 1 / 4" 8388608]
  by (simp add: round_half_even_def Let_def power_int_minus)

lemma four_c2: "counter (Finite (1 / 4)) 2 = Finite (1 / 2)"
  using counter_step [of 2 1 "Finite (1 / 4)"] four_c1 fround_eval [of "- 1" "1 / 4 + 1 / 4" 8388608]
  by (simp add: round_half_even_def Let_def power_int_minus)

lemma four_c3: "counter (Finite (1 / 4)) 3 = Finite (3 / 4)"
  using counter_step [of 3 2 "Finite (1 / 4)"] four_c2 fround_eval [of "- 1" "1 / 2 + 1 / 4" 12582912]
  by (simp add: round_half_even_def Let_def power_int_minus)

lemma four_c4: "counter (Finite (1 / 4)) 4 = Finite (1)"
  using counter_step [of 4 3 "Finite (1 / 4)"] four_c3 fround_eval [of "0" "3 / 4 + 1 / 4" 8388608]
  by (simp add: round_half_even_def Let_def power_int_minus)

lemma four_c5: "counter (Finite (1 / 4)) 5 = Finite (5 / 4)"
  using counter_step [of 5 4 "Finite (1 / 4)"] four_c4 fround_eval [of "0" "1 + 1 / 4" 10485760]
  by (simp add: round_half_even_def Let_def power_int_minus)

lemma four_values: "map (counter (Finite (1 / 4))) [0..<5] = map Finite [0, 1 / 4, 1 / 2, 3 / 4, 1]"
  using four_c0 four_c1 four_c2 four_c3 four_c4
  by (simp add: eval_nat_numeral upt_rec)

lemma four_stops: "stops_after (fdiv (Finite 1) (float_of_int 4)) 5"
  unfolding four_step
  by (rule stops_afterI [OF four_values]) (simp_all add: four_c5)

lemma ten_step: "fdiv (Finite 1) (float_of_int 10) = Finite (13421773 / 134217728)"
  using fround_exact [of 10 10 0] fround_eval [of "- 4" "1 / 10" 13421773]
  by (simp add: float_of_int_def round_half_even_def Let_def power_int_minus)

lemma ten_c0: "counter (Finite (13421773 / 134217728)) 0 = Finite 0"
  by (rule counter_0)

lemma ten_c1: "counter (Finite (13421773 / 134217728)) 1 = Finite (13421773 / 134217728)"
  using counter_step [of 1 0 "Finite (13421773 / 134217728)"] ten_c0 fround_eval [of "- 4" "0 + 13421773 / 134217728" 13421773]
  by (simp add: round_half_even_def Let_def power_int_minus)

lemma ten_c2: "counter (Finite (13421773 / 134217728)) 2 = Finite (13421773 / 67108864)"
  using counter_step [of 2 1 "Finite (13421773 / 134217728)"] ten_c1 fround_eval [of "- 3" "13421773 / 134217728 + 13421773 / 134217728" 13421773]
  by (simp add: round_half_even_def Let_def power_int_minus)

lemma ten_c3: "counter (Finite (13421773 / 134217728)) 3 = Finite (5033165 / 16777216)"
  using counter_step [of 3 2 "Finite (13421773 / 134217728)"] ten_c2 fround_eval [of "- 2" "13421773 / 67108864 + 13421773 / 134217728" 10066330]
  by (simp add: round_half_even_def Let_def power_int_minus)

lemma ten_c4: "counter (Finite (13421773 / 134217728)) 4 = Finite (13421773 / 33554432)"
  using counter_step [of 4 3 "Finite (13421773 / 134217728)"] ten_c3 fround_eval [of "- 2" "5033165 / 16777216 + 13421773 / 134217728" 13421773]
  by (simp add: round_half_even_def Let_def power_int_minus)

lemma ten_c5: "counter (Finite (13421773 / 134217728)) 5 = Finite (1 / 2)"
  using counter_step [of 5 4 "Finite (13421773 / 134217728)"] ten_c4 fround_eval [of "- 1" "13421773 / 33554432 + 13421773 / 134217728" 8388608]
  by (simp add: round_half_even_def Let_def power_int_minus)

lemma ten_c6: "counter (Finite (13421773 / 134217728)) 6 = Finite (5033165 / 8388608)"
  using counter_step [of 6 5 "Finite (13421773 / 134217728)"] ten_c5 fround_eval [of "- 1" "1 / 2 + 13421773 / 134217728" 10066330]
  by (simp add: round_half_even_def Let_def power_int_minus)

lemma ten_c7: "counter (Finite (13421773 / 134217728)) 7 = Finite (2936013 / 4194304)"
  using counter_step [of 7 6 "Finite (13421773 / 134217728)"] ten_c6 fround_eval [of "- 1" "5033165 / 8388608 + 13421773 / 134217728" 11744052]
  by (simp add: round_half_even_def Let_def power_int_minus)

lemma ten_c8: "counter (Finite (13421773 / 134217728)) 8 = Finite (6710887 / 8388608)"
  using counter_step [of 8 7 "Finite (13421773 / 134217728)"] ten_c7 fround_eval [of "- 1" "2936013 / 4194304 + 13421773 / 134217728" 13421774]
  by (simp add: round_half_even_def Let_def power_int_minus)

lemma ten_c9: "counter (Finite (13421773 / 134217728)) 9 = Finite (1887437 / 2097152)"
  using counter_step [of 9 8 "Finite (13421773 / 134217728)"] ten_c8 fround_eval [of "- 1" "6710887 / 8388608 + 13421773 / 134217728" 15099496]
  by (simp add: round_half_even_def Let_def power_int_minus)

lemma ten_c10: "counter (Finite (13421773 / 134217728)) 10 = Finite (8388609 / 8388608)"
  using counter_step [of 10 9 "Finite (13421773 / 134217728)"] ten_c9 fround_eval [of "0" "1887437 / 2097152 + 13421773 / 134217728" 8388609]
  by (simp add: round_half_even_def Let_def power_int_minus)

lemma ten_values: "map (counter (Finite (13421773 / 134217728))) [0..<10] = map Finite [0, 13421773 / 134217728, 13421773 / 67108864, 5033165 / 16777216, 13421773 / 33554432, 1 / 2, 5033165 / 8388608, 2936013 / 4194304, 6710887 / 8388608, 1887437 / 2097152]"
  using ten_c0 ten_c1 ten_c2 ten_c3 ten_c4 ten_c5 ten_c6 ten_c7 ten_c8 ten_c9
  by (simp add: eval_nat_numeral upt_rec)

lemma ten_stops: "stops_after (fdiv (Finite 1) (float_of_int 10)) 10"
  unfolding ten_step
  by (rule stops_afterI [OF ten_values]) (simp_all add: ten_c10)

lemma pow_consts:
  "(2::real) powi (- 24) = 1 / 16777216" "(2::real) powi (- 25) = 1 / 33554432"
  "(2::real) powi (- 23) = 1 / 8388608" "(2::real) powi (- 126) \<le> 1 / 16777217"
  "(2::real) powi 127 \<ge> 16777216" "(2::real) powi (- 126) \<le> 1 / 4294967808"
  "(2::real) powi 127 \<ge> 4294967296"
  by (simp_all add: power_int_minus)

lemma step_bounds_small:
  assumes "1 \<le> P" and "P \<le> 2 ^ 23"
  shows "\<exists>s. fdiv (Finite 1) (float_of_int P) = Finite s \<and> 3 / 33554432 \<le> s \<and> s \<le> 5 / 4"
proof -
  define x :: real where "x = of_int P"
  have x: "1 \<le> x" "x \<le> 8388608"
    using assms by (simp_all add: x_def)
  have "2 powi (- 126) \<le> \<bar>x\<bar>" "\<bar>x\<bar> < 2 powi 127"
    using x pow_consts(4,5) by linarith+
  from fround_rel_error [OF this] obtain p where
    p: "fround x = Finite p" "\<bar>p - x\<bar> \<le> \<bar>x\<bar> * 2 powi (- 24)"
    by blast
  have pb: "16777215 / 16777216 \<le> p" "p \<le> 16777217 / 2"
    using p(2) x unfolding pow_consts by linarith+
  then have ppos: "0 < p" by linarith
  define y where "y = 1 / p"
  have y1: "y \<le> 16777216 / 16777215"
    unfolding y_def using pb(1) ppos by (simp add: field_simps)
  have y2: "2 / 16777217 \<le> y"
    unfolding y_def using pb(2) ppos by (simp add: field_simps)
  have "2 powi (- 126) \<le> \<bar>y\<bar>" "\<bar>y\<bar> < 2 powi 127"
    using y1 y2 pow_consts(4,5) by linarith+
  from fround_rel_error [OF this] obtain s where
    s: "fround y = Finite s" "\<bar>s - y\<bar> \<le> \<bar>y\<bar> * 2 powi (- 24)"
    by blast
  have "3 / 33554432 \<le> s" "s \<le> 5 / 4"
    using s(2) y1 y2 unfolding pow_consts by linarith+
  moreover have "fdiv (Finite 1) (float_of_int P) = Finite s"
    using p(1) s(1) ppos by (simp add: float_of_int_def x_def y_def)
  ultimately show ?thesis by blast
qed

lemma step_bounds_large:
  assumes "2 ^ 23 < P" and "P < 2 ^ 24"
  shows "\<exists>s. fdiv (Finite 1) (float_of_int P) = Finite s \<and>
             8388609 / 140737488355328 \<le> s \<and> s \<le> 5 / 4"
proof -
  define x :: real where "x = of_int P"
  have x: "8388608 < x" "x \<le> 16777215"
    using assms by (simp_all add: x_def)
  have p: "fround x = Finite x"
    unfolding x_def using assms by (intro fround_exact [of _ P 0]) simp_all
  define y where "y = 1 / x"
  have y1: "1 / 16777216 < y" "y < 1 / 8388608"
    unfolding y_def using x by (simp_all add: field_simps)
  have yabs: "\<bar>y\<bar> = y" using y1 by simp
  define m where "m = round_half_even (\<bar>y\<bar> / 2 powi (- 24 - 23))"
  have "fround y = Finite (sgn y * (of_int m * 2 powi (- 24 - 23)))"
    using y1 by (intro fround_eval) (simp_all add: m_def power_int_minus)
  then have s: "fround y = Finite (of_int m / 140737488355328)"
    using y1 by (simp add: sgn_real_def power_int_minus)
  have "y * 140737488355328 = 140737488355328 / x"
    by (simp add: y_def)
  moreover have "8388608 + 1 / 2 < 140737488355328 / x"
    using x by (simp add: field_simps)
  ultimately have "of_int 8388608 + 1 / 2 < \<bar>y\<bar> / 2 powi (- 24 - 23)"
    by (simp add: yabs power_int_minus)
  then have "8388608 + 1 \<le> m"
    unfolding m_def by (rule rhe_lower)
  then have m1: "(8388609::real) \<le> of_int m"
    by linarith
  have "\<bar>y\<bar> / 2 powi (- 24 - 23) \<le> of_int 16777216"
    using y1 by (simp add: yabs power_int_minus field_simps)
  then have "m \<le> 16777216"
    unfolding m_def by (rule rhe_upper)
  then have m2: "of_int m \<le> (16777216::real)"
    by linarith
  have "8388609 / 140737488355328 \<le> of_int m / (140737488355328::real)"
    "of_int m / (140737488355328::real) \<le> 5 / 4"
    using m1 m2 by simp_all
  moreover have "fdiv (Finite 1) (float_of_int P) = Finite (of_int m / 140737488355328)"
    using p s x by (simp add: float_of_int_def x_def [symmetric] y_def)
  ultimately show ?thesis by blast
qed

lemma step_bounds:
  assumes "1 \<le> P" and "P < 2 ^ 24"
  shows "\<exists>s. fdiv (Finite 1) (float_of_int P) = Finite s \<and>
             8388609 / 140737488355328 \<le> s \<and> s \<le> 5 / 4"
proof (cases "P \<le> 2 ^ 23")
  case True
  from step_bounds_small [OF assms(1) True] obtain s where
    "fdiv (Finite 1) (float_of_int P) = Finite s" "3 / 33554432 \<le> s" "s \<le> 5 / 4"
    by blast
  moreover from this have "8388609 / 140737488355328 \<le> s" by linarith
  ultimately show ?thesis by blast
next
  case False
  then show ?thesis
    using assms(2) by (intro step_bounds_large) simp_all
qed

lemma counter_progress:
  assumes "0 \<le> r" "r \<le> 1" "8388609 / 140737488355328 \<le> s" "s \<le> 5 / 4"
  shows "\<exists>r'. fround (r + s) = Finite r' \<and> r + 1 / 140737488355328 \<le> r'"
proof (cases "r + s < 2")
  case True
  have "\<bar>r + s\<bar> < 2 powi 1"
    using True assms by simp
  from fround_error [OF this] obtain r' where
    "fround (r + s) = Finite r'" "\<bar>r' - (r + s)\<bar> \<le> 2 powi (1 - 25)"
    by auto
  moreover have "(2::real) powi (1 - 25) = 1 / 16777216"
    by (simp add: power_int_minus)
  ultimately have "fround (r + s) = Finite r'" "r + 1 / 140737488355328 \<le> r'"
    using assms(3) by linarith+
  then show ?thesis by blast
next
  case False
  have "\<bar>r + s\<bar> < 2 powi 2"
    using assms by simp
  from fround_error [OF this] obtain r' where
    "fround (r + s) = Finite r'" "\<bar>r' - (r + s)\<bar> \<le> 2 powi (2 - 25)"
    by auto
  moreover have "(2::real) powi (2 - 25) = 1 / 8388608"
    by (simp add: power_int_minus)
  ultimately have "fround (r + s) = Finite r'" "r + 1 / 140737488355328 \<le> r'"
    using False assms(2) by linarith+
  then show ?thesis by blast
qed

lemma counter_lower:
  assumes "8388609 / 140737488355328 \<le> s" "s \<le> 5 / 4"
    and "\<forall>j<k. \<exists>r. counter (Finite s) j = Finite r \<and> r \<le> 1"
  shows "\<exists>r. counter (Finite s) k = Finite r \<and> real k / 140737488355328 \<le> r"
  using assms(3)
proof (induction k)
  case 0
  then show ?case by (simp add: counter_0)
next
  case (Suc k)
  then obtain r where r: "counter (Finite s) k = Finite r" "real k / 140737488355328 \<le> r"
    by auto
  from Suc.prems r(1) have "r \<le> 1" by auto
  moreover have "0 \<le> r" using r(2) by (smt (verit) divide_nonneg_pos of_nat_0_le_iff)
  ultimately obtain r' where "fround (r + s) = Finite r'" "r + 1 / 140737488355328 \<le> r'"
    using counter_progress [OF _ _ assms(1,2)] by blast
  then show ?case
    using r by (simp add: counter_Suc add_divide_distrib)
qed

lemma counter_stops:
  assumes "8388609 / 140737488355328 \<le> s" "s \<le> 5 / 4"
  shows "\<exists>n>0. stops_after (Finite s) n"
proof -
  define ok where "ok k \<longleftrightarrow> (\<exists>r. counter (Finite s) k = Finite r \<and> r \<le> 1)" for k
  have "\<exists>k. \<not> ok k"
  proof (rule ccontr)
    assume "\<not> (\<exists>k. \<not> ok k)"
    then have all: "\<forall>j. \<exists>r. counter (Finite s) j = Finite r \<and> r \<le> 1"
      by (simp add: ok_def)
    define K :: nat where "K = 140737488355329"
    have "\<exists>r. counter (Finite s) K = Finite r \<and> real K / 140737488355328 \<le> r"
      using all by (intro counter_lower [OF assms]) blast
    moreover have "1 < real K / 140737488355328"
      by (simp add: K_def)
    ultimately show False
      using all [rule_format, of K] by auto
  qed
  then have "\<exists>n. \<not> ok n \<and> (\<forall>j<n. \<not> \<not> ok j)"
    by (rule exists_least_iff [THEN iffD1])
  then obtain n where n: "\<not> ok n" "\<forall>j<n. ok j"
    by blast
  have "ok 0" by (simp add: ok_def counter_0)
  with n(1) have pos: "0 < n" by (cases n) auto
  from counter_lower [OF assms, of n] n(2) obtain r where
    r: "counter (Finite s) n = Finite r"
    by (auto simp: ok_def)
  with n(1) have "\<not> fle (counter (Finite s) n) (Finite 1)"
    by (simp add: ok_def)
  with n(2) have "stops_after (Finite s) n"
    by (simp add: stops_after_def ok_def)
  with pos show ?thesis by blast
qed

lemma zero_step: "fdiv (Finite 1) (float_of_int 0) = PlusInf"
  by (simp add: float_of_int_def fround_zero)

lemma zero_stops: "stops_after PlusInf 1"
  by (simp add: stops_after_def counter_def)

lemma curveOf_one:
  "curveOf cps step 1 = map (\<lambda>j. bsplineSample cps j 0) [0..<length cps - 3]"
proof -
  have "concat (map (\<lambda>j. [f j]) xs) = map f xs" for f :: "nat \<Rightarrow> vec3" and xs
    by (induction xs) simp_all
  then show ?thesis
    by (simp add: curveOf_def counter_0 fval_def)
qed

lemma grid_exact:
  assumes "n < 16777216"
  shows "fround (real n / 16777216) = Finite (real n / 16777216)"
proof -
  have "real n / 16777216 = of_int (int n) * 2 powi (- 24)"
    by (simp add: power_int_minus)
  then show ?thesis
    using assms by (intro fround_exact [of _ "int n" "- 24"]) simp_all
qed

lemma big_step: "fdiv (Finite 1) (float_of_int 16777216) = Finite (1 / 16777216)"
proof -
  have "fround 16777216 = Finite 16777216"
    using fround_exact [of 16777216 1 24] by simp
  moreover have "fround (1 / 16777216) = Finite (1 / 16777216)"
    using grid_exact [of 1] by simp
  ultimately show ?thesis
    by (simp add: float_of_int_def)
qed

lemma big_counter:
  "\<exists>j\<le>16777216. counter (Finite (1 / 16777216)) k = Finite (real j / 16777216)"
proof (induction k)
  case 0
  show ?case by (intro exI [of _ 0]) (simp add: counter_0)
next
  case (Suc k)
  then obtain j :: nat where j: "j \<le> 16777216"
    "counter (Finite (1 / 16777216)) k = Finite (real j / 16777216)"
    by blast
  have sum: "real j / 16777216 + 1 / 16777216 = real (Suc j) / 16777216"
    by (simp add: add_divide_distrib)
  have next_t: "counter (Finite (1 / 16777216)) (Suc k) = fround (real (Suc j) / 16777216)"
    unfolding counter_Suc j(2) fadd.simps sum by (rule refl)
  consider "Suc j < 16777216" | "Suc j = 16777216" | "j = 16777216"
    using j(1) by linarith
  then show ?case
  proof cases
    case 1
    then have "fround (real (Suc j) / 16777216) = Finite (real (Suc j) / 16777216)"
      by (rule grid_exact)
    with 1 next_t show ?thesis
      by (intro exI [of _ "Suc j"]) simp
  next
    case 2
    have "fround 1 = Finite 1"
      using fround_exact [of 1 1 0] by simp
    then have "counter (Finite (1 / 16777216)) (Suc k) = Finite (real (16777216::nat) / 16777216)"
      unfolding next_t 2 by simp
    then show ?thesis
      by (intro exI [of _ "16777216"]) simp
  next
    case 3
    have "fround (1 + 1 / 16777216) = Finite 1"
      using fround_eval [of 0 "1 + 1 / 16777216" 8388608]
      by (simp add: round_half_even_def Let_def power_int_minus)
    moreover have "real (Suc j) / 16777216 = 1 + 1 / 16777216"
      unfolding 3 by simp
    ultimately have "counter (Finite (1 / 16777216)) (Suc k) = Finite (real (16777216::nat) / 16777216)"
      unfolding next_t by simp
    then show ?thesis
      by (intro exI [of _ "16777216"]) simp
  qed
qed

lemma big_diverges:
  assumes "4 \<le> length cps"
  shows "generateBSplinePoints cps 16777216 = None"
proof -
  have "\<exists>r. counter (Finite (1 / 16777216)) k = Finite r \<and> r \<le> 1" for k
  proof -
    from big_counter [of k] obtain j :: nat where j: "j \<le> 16777216"
      "counter (Finite (1 / 16777216)) k = Finite (real j / 16777216)"
      by blast
    have "real j \<le> 16777216" using j(1) by simp
    then have "real j / 16777216 \<le> 1"
      by simp
    with j(2) show ?thesis by blast
  qed
  then have "sampleLoop cps 0 (Finite (1 / 16777216)) (Finite 0) [] = None"
    unfolding counter_def by (intro sampleLoop_diverges) blast
  then show ?thesis
    using assms by (simp add: generateBSplinePoints_def big_step windowLoop.simps [of cps _ 0])
qed

lemma neg_counter:
  assumes "- 5 / 4 \<le> s" and "s \<le> 0"
  shows "\<exists>r. counter (Finite s) k = Finite r \<and> - 67108864 \<le> r \<and> r \<le> 0"
proof (induction k)
  case 0
  show ?case by (simp add: counter_0)
next
  case (Suc k)
  then obtain r where r: "counter (Finite s) k = Finite r" "- 67108864 \<le> r" "r \<le> 0"
    by blast
  have next_t: "counter (Finite s) (Suc k) = fround (r + s)"
    by (simp add: counter_Suc r(1))
  show ?case
  proof (cases "r + s < - 67108864")
    case True
    then have "fround (r + s) = Finite (- 67108864)"
      using r(2) assms(1) by (intro fround_just_below) linarith+
    then show ?thesis
      unfolding next_t by simp
  next
    case False
    then have "\<bar>r + s\<bar> \<le> 2 powi 26"
      using r(3) assms(2) by simp
    from fround_no_cross [OF this] obtain r' where
      "fround (r + s) = Finite r'" "\<bar>r'\<bar> \<le> 2 powi 26" "r + s \<le> 0 \<longrightarrow> r' \<le> 0"
      by auto
    then show ?thesis
      unfolding next_t using r(3) assms(2) by auto
  qed
qed

lemma neg_step:
  assumes "P < 0" and "- (2 ^ 31) \<le> P"
  shows "\<exists>s. fdiv (Finite 1) (float_of_int P) = Finite s \<and> - 5 / 4 \<le> s \<and> s \<le> 0"
proof -
  define x :: real where "x = of_int P"
  have x: "x \<le> - 1" "- 2147483648 \<le> x"
    using assms by (simp_all add: x_def)
  have "2 powi (- 126) \<le> \<bar>x\<bar>" "\<bar>x\<bar> < 2 powi 127"
    using x pow_consts(6,7) by linarith+
  from fround_rel_error [OF this] obtain p where
    p: "fround x = Finite p" "\<bar>p - x\<bar> \<le> \<bar>x\<bar> * 2 powi (- 24)"
    by blast
  have pb: "p \<le> - (16777215 / 16777216)" "- 4294967808 / 2 \<le> p"
    using p(2) x unfolding pow_consts by linarith+
  then have pneg: "p < 0" by linarith
  define y where "y = 1 / p"
  have y1: "- (16777216 / 16777215) \<le> y"
    unfolding y_def using pb(1) pneg by (simp add: field_simps)
  have y2: "y \<le> - (2 / 4294967808)"
    unfolding y_def using pb(2) pneg by (simp add: field_simps)
  have "2 powi (- 126) \<le> \<bar>y\<bar>" "\<bar>y\<bar> < 2 powi 127"
    using y1 y2 pow_consts(6,7) by linarith+
  from fround_rel_error [OF this] obtain s where
    s: "fround y = Finite s" "\<bar>s - y\<bar> \<le> \<bar>y\<bar> * 2 powi (- 24)" "y \<le> 0 \<longrightarrow> s \<le> 0"
    by blast
  have "- 5 / 4 \<le> s" "s \<le> 0"
    using s(2,3) y1 y2 unfolding pow_consts by linarith+
  moreover have "fdiv (Finite 1) (float_of_int P) = Finite s"
    using p(1) s(1) pneg by (simp add: float_of_int_def x_def y_def)
  ultimately show ?thesis by blast
qed

lemma neg_diverges:
  assumes "4 \<le> length cps" and "P < 0" and "- (2 ^ 31) \<le> P"
  shows "generateBSplinePoints cps P = None"
proof -
  from neg_step [OF assms(2,3)] obtain s where
    s: "fdiv (Finite 1) (float_of_int P) = Finite s" "- 5 / 4 \<le> s" "s \<le> 0"
    by blast
  have "\<exists>r. counter (Finite s) k = Finite r \<and> r \<le> 1" for k
    using neg_counter [OF s(2,3), of k] by auto
  then have "sampleLoop cps 0 (Finite s) (Finite 0) [] = None"
    unfolding counter_def by (intro sampleLoop_diverges) blast
  then show ?thesis
    using assms(1) by (simp add: generateBSplinePoints_def s(1) windowLoop.simps [of cps _ 0])
qed

lemma generateBSplinePoints_scenario:
  "map_option (map_sum id length)
     (generateBSplinePoints
        [Vec3 0 0 0, Vec3 1 0 0, Vec3 2 0 0, Vec3 3 0 0, Vec3 2 1 0, Vec3 1 1 0] 4) =
   Some (Inr 15)"
  using generateBSplinePoints_stops [OF _ four_stops,
      of "[Vec3 0 0 0, Vec3 1 0 0, Vec3 2 0 0, Vec3 3 0 0, Vec3 2 1 0, Vec3 1 1 0]"]
  by (simp add: four_step length_curveOf)

lemma generateBSplinePoints_length:
  assumes "4 \<le> length cps" and "stops_after (fdiv (Finite 1) (float_of_int P)) n"
  shows "map_option (map_sum id length) (generateBSplinePoints cps P) =
           Some (Inr ((length cps - 3) * n))"
  using generateBSplinePoints_stops [OF assms] by (simp add: length_curveOf)

text \<open>
  C3: the number of samples of a window is not always \<open>P + 1\<close>.  With \<open>pointsPerSegment =
  10\<close> the step is the float nearest to \<open>0.1\<close>, the counter reaches \<open>0.9000001\<close> after nine
  additions and \<open>1.0000001\<close> after ten: the test \<open>t \<le> 1\<close> fails before a sample at \<open>t = 1\<close>
  is taken.  For the six control points of the scenario the call returns \<open>3 \<cdot> 10 = 30\<close>
  points, not \<open>3 \<cdot> 11 = 33\<close>.
\<close>

theorem generateBSplinePoints_ten_samples:
  "map_option (map_sum id length)
     (generateBSplinePoints
        [Vec3 0 0 0, Vec3 1 0 0, Vec3 2 0 0, Vec3 3 0 0, Vec3 2 1 0, Vec3 1 1 0] 10) =
   Some (Inr 30) \<and>
   fdiv (Finite 1) (float_of_int 10) = Finite (13421773 / 134217728) \<and>
   counter (Finite (13421773 / 134217728)) 9 = Finite (1887437 / 2097152) \<and>
   counter (Finite (13421773 / 134217728)) 10 = Finite (8388609 / 8388608)"
  using generateBSplinePoints_stops [OF _ ten_stops,
      of "[Vec3 0 0 0, Vec3 1 0 0, Vec3 2 0 0, Vec3 3 0 0, Vec3 2 1 0, Vec3 1 1 0]"]
  by (simp add: ten_step length_curveOf ten_c9 ten_c10)

text \<open>
  The first point of the curve.  For at least four control points and
  \<open>1 \<le> pointsPerSegment < 2^24\<close> the loop over \<open>t\<close> ends, the call returns a curve that
  is not empty, and its first point is the sample of the first window at \<open>t = 0\<close>,
  \<open>G \<cdot> M \<cdot> T(0) = (1/6) P0 + (4/6) P1 + (1/6) P2\<close>.
\<close>

lemma generateBSplinePoints_first_point:
  assumes "4 \<le> length cps" and "1 \<le> P" and "P < 2 ^ 24"
  shows "\<exists>pts. generateBSplinePoints cps P = Some (Inr pts) \<and> pts \<noteq> [] \<and>
           hd pts = bsplineSample cps 0 0 \<and>
           hd pts = vadd (vadd (vscale (cps ! 0) (1 / 6)) (vscale (cps ! 1) (4 / 6)))
                         (vscale (cps ! 2) (1 / 6))"
proof -
  from step_bounds [OF assms(2,3)] obtain s where
    s: "fdiv (Finite 1) (float_of_int P) = Finite s"
      "8388609 / 140737488355328 \<le> s" "s \<le> 5 / 4"
    by blast
  from counter_stops [OF s(2,3)] obtain n where n: "0 < n" "stops_after (Finite s) n"
    by blast
  have "generateBSplinePoints cps P = Some (Inr (curveOf cps (Finite s) n))"
    using generateBSplinePoints_stops [OF assms(1), of P n] n(2) by (simp add: s(1))
  moreover have "curveOf cps (Finite s) n \<noteq> []"
    "hd (curveOf cps (Finite s) n) = bsplineSample cps 0 0"
    using hd_curveOf [OF assms(1) n(1)] by simp_all
  moreover have "bsplineSample cps 0 0 =
      vadd (vadd (vscale (cps ! 0) (1 / 6)) (vscale (cps ! 1) (4 / 6))) (vscale (cps ! 2) (1 / 6))"
    using bsplineSample_0 [of cps 0] by (simp add: numeral_2_eq_2)
  ultimately show ?thesis by simp
qed

lemma generateBSplinePoints_first_point_scenario:
  "\<exists>pts. generateBSplinePoints
           [Vec3 0 0 0, Vec3 1 0 0, Vec3 2 0 0, Vec3 3 0 0, Vec3 2 1 0, Vec3 1 1 0] 4 = Some (Inr pts) \<and>
         pts \<noteq> [] \<and> hd pts = Vec3 1 0 0"
  using generateBSplinePoints_first_point
    [of "[Vec3 0 0 0, Vec3 1 0 0, Vec3 2 0 0, Vec3 3 0 0, Vec3 2 1 0, Vec3 1 1 0]" 4]
  by (auto simp: vadd_def vscale_def)

text \<open>
  C4: not every positive \<open>pointsPerSegment\<close> yields a curve.  With \<open>pointsPerSegment =
  2^24\<close> the step is \<open>2^(-24)\<close>.  The sample at \<open>t = 0\<close> is computed first and has the value
  \<open>(1/6) P0 + (4/6) P1 + (1/6) P2\<close>, here \<open>(1,0,0)\<close>; but the counter reaches \<open>1\<close> and stays
  there, as \<open>1 + 2^(-24)\<close> rounds to \<open>1\<close>, so the test \<open>t \<le> 1\<close> never fails and the call
  does not return: there is no evaluated curve.
\<close>

theorem generateBSplinePoints_never_returns:
  "generateBSplinePoints
     [Vec3 0 0 0, Vec3 1 0 0, Vec3 2 0 0, Vec3 3 0 0, Vec3 2 1 0, Vec3 1 1 0] 16777216 = None \<and>
   fdiv (Finite 1) (float_of_int 16777216) = Finite (1 / 16777216) \<and>
   fle (Finite 1) (Finite 1) \<and>
   fadd (Finite 1) (Finite (1 / 16777216)) = Finite 1 \<and>
   bsplineSample [Vec3 0 0 0, Vec3 1 0 0, Vec3 2 0 0, Vec3 3 0 0, Vec3 2 1 0, Vec3 1 1 0] 0 0 =
     Vec3 1 0 0"
proof -
  have "generateBSplinePoints
          [Vec3 0 0 0, Vec3 1 0 0, Vec3 2 0 0, Vec3 3 0 0, Vec3 2 1 0, Vec3 1 1 0] 16777216 = None"
    by (rule big_diverges) simp
  moreover have "fadd (Finite 1) (Finite (1 / 16777216)) = Finite 1"
    using fround_eval [of 0 "1 + 1 / 16777216" 8388608]
    by (simp add: round_half_even_def Let_def power_int_minus)
  moreover have "bsplineSample
      [Vec3 0 0 0, Vec3 1 0 0, Vec3 2 0 0, Vec3 3 0 0, Vec3 2 1 0, Vec3 1 1 0] 0 0 = Vec3 1 0 0"
    by (simp add: bsplineSample_0 vadd_def vscale_def)
  ultimately show ?thesis
    using big_step by simp
qed

text \<open>
  C8 (as amended): no argument is rejected.  With \<open>pointsPerSegment = 0\<close> the step is
  \<open>+\<infinity>\<close> and the call returns one point for every window, its sample at \<open>t = 0\<close>.  With a
  negative \<open>pointsPerSegment\<close> the counter never exceeds 1 and the call does not return.
\<close>

theorem generateBSplinePoints_nonpositive:
  assumes "4 \<le> length cps"
  shows "generateBSplinePoints cps 0 =
           Some (Inr (map (\<lambda>i. bsplineSample cps i 0) [0..<length cps - 3])) \<and>
         (\<forall>P. - (2 ^ 31) \<le> P \<and> P < 0 \<longrightarrow> generateBSplinePoints cps P = None)"
proof -
  have "generateBSplinePoints cps 0 = Some (Inr (curveOf cps PlusInf 1))"
    using generateBSplinePoints_stops [OF assms, of 0 1] zero_stops
    unfolding zero_step by blast
  then show ?thesis
    unfolding curveOf_one using neg_diverges [OF assms] by blast
qed

theorem generateBSplinePoints_nonpositive_witness:
  "generateBSplinePoints [Vec3 0 0 0, Vec3 1 0 0, Vec3 2 0 0, Vec3 3 0 0, Vec3 2 1 0] 0 =
     Some (Inr [Vec3 1 0 0, Vec3 2 0 0]) \<and>
   generateBSplinePoints [Vec3 0 0 0, Vec3 1 0 0, Vec3 2 0 0, Vec3 3 0 0, Vec3 2 1 0] (- 1) = None"
  using generateBSplinePoints_nonpositive
    [of "[Vec3 0 0 0, Vec3 1 0 0, Vec3 2 0 0, Vec3 3 0 0, Vec3 2 1 0]"]
  by (simp add: bsplineSample_0 vadd_def vscale_def upt_rec)

text \<open>
  With four control points and \<open>pointsPerSegment = 0\<close> the call returns normally, with the
  single point \<open>(1,0,0)\<close>.
\<close>

theorem generateBSplinePoints_zero_returns:
  "generateBSplinePoints [Vec3 0 0 0, Vec3 1 0 0, Vec3 2 0 0, Vec3 3 0 0] 0 =
     Some (Inr [Vec3 1 0 0])"
proof -
  have "generateBSplinePoints [Vec3 0 0 0, Vec3 1 0 0, Vec3 2 0 0, Vec3 3 0 0] 0 =
        Some (Inr (curveOf [Vec3 0 0 0, Vec3 1 0 0, Vec3 2 0 0, Vec3 3 0 0] PlusInf 1))"
    using generateBSplinePoints_stops [of "[Vec3 0 0 0, Vec3 1 0 0, Vec3 2 0 0, Vec3 3 0 0]" 0 1]
      zero_stops
    unfolding zero_step by simp
  then show ?thesis
    unfolding curveOf_one by (simp add: bsplineSample_0 vadd_def vscale_def)
qed

section \<open>Properties of the animation clock\<close>

lemma accAfter_0: "accAfter a 0 = a"
  by (simp add: accAfter_def)

lemma accAfter_shift: "accAfter (fsub a STEP_TIME) k = accAfter a (Suc k)"
  unfolding accAfter_def by (simp only: funpow_Suc_right o_apply)

lemma drains_Suc:
  assumes "fge a STEP_TIME" and "drains (fsub a STEP_TIME) k"
  shows "drains a (Suc k)"
proof -
  have "fge (accAfter a j) STEP_TIME" if "j < Suc k" for j
  proof (cases j)
    case 0
    with assms(1) show ?thesis by (simp add: accAfter_0)
  next
    case (Suc i)
    with that assms(2) show ?thesis
      by (simp add: drains_def accAfter_shift [symmetric])
  qed
  moreover have "\<not> fge (accAfter a (Suc k)) STEP_TIME"
    using assms(2) by (simp add: drains_def accAfter_shift [symmetric])
  ultimately show ?thesis
    by (simp add: drains_def)
qed

lemma drains_Suc_dest:
  assumes "drains a (Suc k)"
  shows "fge a STEP_TIME" and "drains (fsub a STEP_TIME) k"
proof -
  show "fge a STEP_TIME"
    using assms accAfter_0 [of a] by (auto simp: drains_def)
  show "drains (fsub a STEP_TIME) k"
    using assms by (auto simp: drains_def accAfter_shift)
qed

lemma animationLoop_run:
  assumes "0 < loopLength" and "0 \<le> i" and "drains a k"
  shows "animationLoop loopLength \<lparr>animationIndex = i, animAccumulator = a\<rparr> =
           Some \<lparr>animationIndex = (if k = 0 then i else (i + int k) mod int loopLength),
                 animAccumulator = accAfter a k\<rparr>"
  using assms(2,3)
proof (induction k arbitrary: i a)
  case 0
  then have "\<not> fge a STEP_TIME"
    by (simp add: drains_def accAfter_0)
  then show ?case
    by (subst animationLoop.simps) (simp add: accAfter_0)
next
  case (Suc k)
  from drains_Suc_dest [OF Suc.prems(2)]
  have ge: "fge a STEP_TIME" and rest: "drains (fsub a STEP_TIME) k" .
  have idx: "int (size_t_of_int (i + 1) mod loopLength) = (i + 1) mod int loopLength"
    using Suc.prems(1) by (simp add: size_t_of_int_def zmod_int)
  have nonneg: "0 \<le> (i + 1) mod int loopLength"
    using assms(1) by simp
  have "animationLoop loopLength \<lparr>animationIndex = i, animAccumulator = a\<rparr> =
        animationLoop loopLength \<lparr>animationIndex = (i + 1) mod int loopLength,
                             animAccumulator = fsub a STEP_TIME\<rparr>"
    by (subst animationLoop.simps) (simp add: ge idx)
  also have "\<dots> = Some \<lparr>animationIndex =
                           (if k = 0 then (i + 1) mod int loopLength
                            else ((i + 1) mod int loopLength + int k) mod int loopLength),
                         animAccumulator = accAfter (fsub a STEP_TIME) k\<rparr>"
    using nonneg rest by (rule Suc.IH)
  also have "(if k = 0 then (i + 1) mod int loopLength
              else ((i + 1) mod int loopLength + int k) mod int loopLength) =
             (i + int (Suc k)) mod int loopLength"
  proof -
    have "((i + 1) mod int loopLength + int k) mod int loopLength = (i + 1 + int k) mod int loopLength"
      by (rule mod_add_left_eq)
    moreover have "i + 1 + int k = i + int (Suc k)"
      by simp
    ultimately show ?thesis
      by (cases "k = 0") simp_all
  qed
  finally show ?case
    by (simp only: accAfter_shift nat.simps if_False)
qed

lemma step_time: "STEP_TIME = Finite (8947849 / 268435456)"
  using fround_eval [of "- 5" "1 / 30" 8947849]
  by (simp add: STEP_TIME_def round_half_even_def Let_def power_int_minus)

lemma drains_0: "\<not> fge a STEP_TIME \<Longrightarrow> drains a 0"
  by (simp add: drains_def accAfter_0)

lemma drains_exists_aux:
  "a < real n * (559241 / 268435456) \<Longrightarrow> a < 1048576 \<Longrightarrow> \<exists>k. drains (Finite a) k"
proof (induction n arbitrary: a)
  case 0
  then have "\<not> fge (Finite a) STEP_TIME"
    by (simp add: fge_def step_time)
  then show ?case
    using drains_0 by blast
next
  case (Suc n)
  show ?case
  proof (cases "fge (Finite a) STEP_TIME")
    case False
    then show ?thesis using drains_0 by blast
  next
    case True
    then have a: "8947849 / 268435456 \<le> a"
      by (simp add: fge_def step_time)
    have "\<bar>a - 8947849 / 268435456\<bar> < 2 powi 20"
      using a Suc.prems(2) by simp
    from fround_error [OF this] obtain r where
      r: "fround (a - 8947849 / 268435456) = Finite r"
        "\<bar>r - (a - 8947849 / 268435456)\<bar> \<le> 2 powi (20 - 25)"
      by auto
    have p: "(2::real) powi (20 - 25) = 1 / 32"
      by (simp add: power_int_minus)
    have r1: "r \<le> a - 559241 / 268435456"
      using r(2) unfolding p by linarith
    have "r < real n * (559241 / 268435456)"
      using r1 Suc.prems(1) by (simp add: algebra_simps)
    moreover have "r < 1048576"
      using r1 Suc.prems(2) by linarith
    ultimately obtain k where "drains (Finite r) k"
      using Suc.IH by blast
    moreover have "fsub (Finite a) STEP_TIME = Finite r"
      using r(1) by (simp add: fsub_def step_time)
    ultimately have "drains (Finite a) (Suc k)"
      using True by (intro drains_Suc) simp_all
    then show ?thesis by blast
  qed
qed

lemma drains_exists:
  assumes "a < 1048576"
  shows "\<exists>k. drains (Finite a) k"
proof -
  obtain n :: nat where "a / (559241 / 268435456) < real n"
    using reals_Archimedean2 by blast
  then have "a < real n * (559241 / 268435456)"
    by (simp add: field_simps)
  then show ?thesis
    using assms by (rule drains_exists_aux)
qed

lemma accAfter_step: "k = j + 1 \<Longrightarrow> accAfter a k = fsub (accAfter a j) STEP_TIME"
  by (simp add: accAfter_def)

lemma eighth_a0: "accAfter (Finite (1 / 8)) 0 = Finite (1 / 8)"
  by (rule accAfter_0)

lemma eighth_a1: "accAfter (Finite (1 / 8)) 1 = Finite (3075823 / 33554432)"
  using accAfter_step [of 1 0 "Finite (1 / 8)"] eighth_a0 fround_eval [of "- 4" "1 / 8 - 8947849 / 268435456" 12303292]
  by (simp add: fsub_def step_time round_half_even_def Let_def power_int_minus)

lemma eighth_a2: "accAfter (Finite (1 / 8)) 2 = Finite (15658735 / 268435456)"
  using accAfter_step [of 2 1 "Finite (1 / 8)"] eighth_a1 fround_eval [of "- 5" "3075823 / 33554432 - 8947849 / 268435456" 15658735]
  by (simp add: fsub_def step_time round_half_even_def Let_def power_int_minus)

lemma eighth_a3: "accAfter (Finite (1 / 8)) 3 = Finite (3355443 / 134217728)"
  using accAfter_step [of 3 2 "Finite (1 / 8)"] eighth_a2 fround_eval [of "- 6" "15658735 / 268435456 - 8947849 / 268435456" 13421772]
  by (simp add: fsub_def step_time round_half_even_def Let_def power_int_minus)

lemma eighth_drains: "drains (Finite (1 / 8)) 3"
  unfolding drains_def using eighth_a0 eighth_a1 eighth_a2 eighth_a3
  by (auto simp: fge_def step_time eval_nat_numeral less_Suc_eq)

lemma tick_a0: "accAfter (Finite (8947849 / 268435456)) 0 = Finite (8947849 / 268435456)"
  by (rule accAfter_0)

lemma tick_a1: "accAfter (Finite (8947849 / 268435456)) 1 = Finite (0)"
  using accAfter_step [of 1 0 "Finite (8947849 / 268435456)"] tick_a0 fround_zero
  by (simp add: fsub_def step_time round_half_even_def Let_def power_int_minus)

lemma tick_drains: "drains (Finite (8947849 / 268435456)) 1"
  unfolding drains_def using tick_a0 tick_a1
  by (auto simp: fge_def step_time eval_nat_numeral less_Suc_eq)

lemma advance_empty:
  "advance st deltaTime 0 = Some (st\<lparr>animAccumulator := fadd (animAccumulator st) deltaTime\<rparr>)"
  by (simp add: advance_def)

lemma advance_run:
  assumes "0 < loopLength" and "0 \<le> animationIndex st"
    and "drains (fadd (animAccumulator st) deltaTime) k"
  shows "advance st deltaTime loopLength =
           Some (st\<lparr>animationIndex :=
                      (if k = 0 then animationIndex st
                       else (animationIndex st + int k) mod int loopLength),
                    animAccumulator := accAfter (fadd (animAccumulator st) deltaTime) k\<rparr>)"
  using assms animationLoop_run [OF assms(1,2,3)]
  by (cases st) (simp add: advance_def)

lemma tick_add: "fadd (Finite 0) STEP_TIME = Finite (8947849 / 268435456)"
  using fround_exact [of "8947849 / 268435456" 8947849 "- 28"]
  by (simp add: step_time power_int_minus)

lemma advance_tick:
  assumes "0 \<le> i"
  shows "advance \<lparr>animationIndex = i, animAccumulator = Finite 0\<rparr> STEP_TIME 5 =
           Some \<lparr>animationIndex = (i + 1) mod 5, animAccumulator = Finite 0\<rparr>"
  using advance_run [of 5 "\<lparr>animationIndex = i, animAccumulator = Finite 0\<rparr>" STEP_TIME 1]
    assms tick_drains tick_a1
  by (simp add: tick_add)

lemma animationLoop_diverges:
  assumes "\<forall>k. fge (accAfter (animAccumulator st) k) STEP_TIME"
  shows "animationLoop loopLength st = None"
proof (rule ccontr)
  assume "animationLoop loopLength st \<noteq> None"
  then obtain y where y: "animationLoop loopLength st = Some y"
    by auto
  have "\<not> (\<forall>k. fge (accAfter (animAccumulator st) k) STEP_TIME)"
  proof (rule animationLoop.raw_induct
      [where P = "\<lambda>loopLength st y. \<not> (\<forall>k. fge (accAfter (animAccumulator st) k) STEP_TIME)",
        OF _ y])
    fix f loopLength and st y :: AnimationState
    assume IH: "\<And>loopLength st y. f loopLength st = Some y \<Longrightarrow>
                  \<not> (\<forall>k. fge (accAfter (animAccumulator st) k) STEP_TIME)"
      and body: "(if fge (animAccumulator st) STEP_TIME then
                    f loopLength
                      (st\<lparr>animationIndex := int (size_t_of_int (animationIndex st + 1) mod loopLength),
                          animAccumulator := fsub (animAccumulator st) STEP_TIME\<rparr>)
                  else Some st) = Some y"
    show "\<not> (\<forall>k. fge (accAfter (animAccumulator st) k) STEP_TIME)"
    proof
      assume inv: "\<forall>k. fge (accAfter (animAccumulator st) k) STEP_TIME"
      from inv [rule_format, of 0] have ge: "fge (animAccumulator st) STEP_TIME"
        by (simp add: accAfter_0)
      have next_inv: "\<forall>k. fge (accAfter (fsub (animAccumulator st) STEP_TIME) k) STEP_TIME"
        unfolding accAfter_shift using inv by blast
      from body ge have "f loopLength
          (st\<lparr>animationIndex := int (size_t_of_int (animationIndex st + 1) mod loopLength),
              animAccumulator := fsub (animAccumulator st) STEP_TIME\<rparr>) = Some y"
        by simp
      from IH [OF this] next_inv show False
        by simp
    qed
  qed
  with assms show False by blast
qed

lemma stuck_sub: "fsub (Finite 33554432) STEP_TIME = Finite 33554432"
  using fround_eval [of 24 "33554432 - 8947849 / 268435456" 16777216]
  by (simp add: fsub_def step_time round_half_even_def Let_def power_int_minus)

lemma stuck_acc: "accAfter (Finite 33554432) k = Finite 33554432"
  by (induction k) (simp_all add: accAfter_def stuck_sub)

lemma stuck_add: "fround 33554432 = Finite 33554432"
  using fround_exact [of 33554432 1 25] by simp

lemma advance_stuck:
  "advance \<lparr>animationIndex = 0, animAccumulator = Finite 0\<rparr> (Finite 33554432) 5 = None"
proof -
  have "\<forall>k. fge (accAfter (Finite 33554432) k) STEP_TIME"
    by (simp add: stuck_acc fge_def step_time)
  then have "animationLoop 5 \<lparr>animationIndex = 0, animAccumulator = Finite 33554432\<rparr> = None"
    by (intro animationLoop_diverges) simp
  then show ?thesis
    by (simp add: advance_def stuck_add)
qed

lemma advance_negative_index:
  "advance \<lparr>animationIndex = - 5, animAccumulator = Finite 0\<rparr> STEP_TIME 5 =
     Some \<lparr>animationIndex = 2, animAccumulator = Finite 0\<rparr>"
proof -
  have 1: "animationLoop 5 \<lparr>animationIndex = - 5, animAccumulator = Finite (8947849 / 268435456)\<rparr> =
           animationLoop 5 \<lparr>animationIndex = 2, animAccumulator = Finite 0\<rparr>"
    using tick_a1 accAfter_step [of 1 0 "Finite (8947849 / 268435456)"] tick_a0
    by (subst animationLoop.simps) (simp add: fge_def step_time size_t_of_int_def)
  have 2: "animationLoop 5 \<lparr>animationIndex = 2, animAccumulator = Finite 0\<rparr> =
           Some \<lparr>animationIndex = 2, animAccumulator = Finite 0\<rparr>"
    by (subst animationLoop.simps) (simp add: fge_def step_time)
  show ?thesis
    by (simp add: advance_def tick_add 1 2)
qed

text \<open>
  C7 (as amended): \<open>advance\<close> adds \<open>deltaTime\<close> to the accumulator.  With an empty loop it
  does nothing else: the index is unchanged and the accumulator keeps the added time.  With a
  loop of \<open>loopLength > 0\<close> points and a non-negative index, it then subtracts \<open>STEP_TIME\<close>
  (the float \<open>1/30\<close>) while the accumulator is at least \<open>STEP_TIME\<close>; after \<open>k\<close>
  subtractions the index has been incremented \<open>k\<close> times modulo \<open>loopLength\<close>.  The loop ends
  whenever the accumulator with the added time is a finite value below \<open>2^20\<close>.  From index
  0 and accumulator 0, five calls with \<open>deltaTime = STEP_TIME\<close> and \<open>loopLength = 5\<close> give
  the indices 1, 2, 3, 4, 0.
\<close>

theorem advance_fixed_step:
  "advance st deltaTime 0 =
     Some (st\<lparr>animAccumulator := fadd (animAccumulator st) deltaTime\<rparr>) \<and>
   (\<forall>(loopLength::nat) k.
      0 < loopLength \<and> 0 \<le> animationIndex st \<and>
      drains (fadd (animAccumulator st) deltaTime) k \<longrightarrow>
      advance st deltaTime loopLength =
        Some (st\<lparr>animationIndex :=
                   (if k = 0 then animationIndex st
                    else (animationIndex st + int k) mod int loopLength),
                 animAccumulator := accAfter (fadd (animAccumulator st) deltaTime) k\<rparr>)) \<and>
   (\<forall>a. fadd (animAccumulator st) deltaTime = Finite a \<and> a < 2 ^ 20 \<longrightarrow>
      (\<exists>k. drains (Finite a) k)) \<and>
   advance \<lparr>animationIndex = 0, animAccumulator = Finite 0\<rparr> STEP_TIME 5 =
     Some \<lparr>animationIndex = 1, animAccumulator = Finite 0\<rparr> \<and>
   advance \<lparr>animationIndex = 1, animAccumulator = Finite 0\<rparr> STEP_TIME 5 =
     Some \<lparr>animationIndex = 2, animAccumulator = Finite 0\<rparr> \<and>
   advance \<lparr>animationIndex = 2, animAccumulator = Finite 0\<rparr> STEP_TIME 5 =
     Some \<lparr>animationIndex = 3, animAccumulator = Finite 0\<rparr> \<and>
   advance \<lparr>animationIndex = 3, animAccumulator = Finite 0\<rparr> STEP_TIME 5 =
     Some \<lparr>animationIndex = 4, animAccumulator = Finite 0\<rparr> \<and>
   advance \<lparr>animationIndex = 4, animAccumulator = Finite 0\<rparr> STEP_TIME 5 =
     Some \<lparr>animationIndex = 0, animAccumulator = Finite 0\<rparr>"
proof (intro conjI allI impI)
  show "advance st deltaTime 0 =
          Some (st\<lparr>animAccumulator := fadd (animAccumulator st) deltaTime\<rparr>)"
    by (rule advance_empty)
next
  fix loopLength :: nat and k
  assume "0 < loopLength \<and> 0 \<le> animationIndex st \<and>
          drains (fadd (animAccumulator st) deltaTime) k"
  then show "advance st deltaTime loopLength =
        Some (st\<lparr>animationIndex :=
                   (if k = 0 then animationIndex st
                    else (animationIndex st + int k) mod int loopLength),
                 animAccumulator := accAfter (fadd (animAccumulator st) deltaTime) k\<rparr>)"
    by (intro advance_run) simp_all
next
  fix a
  assume "fadd (animAccumulator st) deltaTime = Finite a \<and> a < 2 ^ 20"
  then have "a < 1048576" by simp
  then show "\<exists>k. drains (Finite a) k"
    by (rule drains_exists)
qed (simp_all add: advance_tick)

theorem advance_fixed_step_witness:
  "advance \<lparr>animationIndex = 4, animAccumulator = Finite 0\<rparr> (Finite (1 / 8)) 5 =
     Some \<lparr>animationIndex = 2, animAccumulator = Finite (3355443 / 134217728)\<rparr> \<and>
   advance \<lparr>animationIndex = 4, animAccumulator = Finite 0\<rparr> (Finite (1 / 8)) 0 =
     Some \<lparr>animationIndex = 4, animAccumulator = Finite (1 / 8)\<rparr> \<and>
   (\<exists>k. drains (Finite (1 / 8)) k)"
proof -
  let ?st = "\<lparr>animationIndex = 4, animAccumulator = Finite 0\<rparr>"
  have add: "fadd (animAccumulator ?st) (Finite (1 / 8)) = Finite (1 / 8)"
    using fround_exact [of "1 / 8" 1 "- 3"] by (simp add: power_int_minus)
  note inst = advance_fixed_step [of ?st "Finite (1 / 8)"]
  have 1: "advance ?st (Finite (1 / 8)) 0 = Some \<lparr>animationIndex = 4, animAccumulator = Finite (1 / 8)\<rparr>"
    using inst [THEN conjunct1] unfolding add by simp
  have 2: "advance ?st (Finite (1 / 8)) 5 =
           Some \<lparr>animationIndex = 2, animAccumulator = Finite (3355443 / 134217728)\<rparr>"
    using inst [THEN conjunct2, THEN conjunct1, rule_format, of 5 3] eighth_drains
    unfolding add eighth_a3 by simp
  have 3: "\<exists>k. drains (Finite (1 / 8)) k"
    using inst [THEN conjunct2, THEN conjunct2, THEN conjunct1, rule_format, of "1 / 8"]
    unfolding add by simp
  from 1 2 3 show ?thesis by blast
qed

text \<open>
  With an empty loop the call is not a no-op: the accumulator has changed.
  A negative index is not advanced modulo the loop length, because the sum is
  converted to \<^verbatim>\<open>size_t\<close> before the remainder is taken; and from an
  accumulator of \<open>2\<^sup>2\<^sup>5\<close> the subtraction of \<open>STEP_TIME\<close> rounds back to
  the same value, so the loop never ends.
\<close>

theorem advance_empty_loop_accumulates:
  "advance \<lparr>animationIndex = 0, animAccumulator = Finite 0\<rparr> (Finite (1 / 8)) 0 =
     Some \<lparr>animationIndex = 0, animAccumulator = Finite (1 / 8)\<rparr> \<and>
   advance \<lparr>animationIndex = - 5, animAccumulator = Finite 0\<rparr> STEP_TIME 5 =
     Some \<lparr>animationIndex = 2, animAccumulator = Finite 0\<rparr> \<and>
   (- 5 + 1) mod (5 :: int) = 1 \<and>
   advance \<lparr>animationIndex = 0, animAccumulator = Finite 0\<rparr> (Finite 33554432) 5 = None"
proof -
  have "advance \<lparr>animationIndex = 0, animAccumulator = Finite 0\<rparr> (Finite (1 / 8)) 0 =
          Some \<lparr>animationIndex = 0, animAccumulator = Finite (1 / 8)\<rparr>"
    using fround_exact [of "1 / 8" 1 "- 3"] by (simp add: advance_def power_int_minus)
  with advance_negative_index advance_stuck show ?thesis
    by simp
qed

end
